theory Spec2Isabelle
  imports Main
begin

section \<open>Values shared by the commands\<close>

text \<open>
  A rejected promise or a thrown value is an \<open>exn\<close>: a JavaScript \<open>Error\<close> with its
  message. \<open>toString\<close> is \<open>Error.prototype.toString\<close> for the name \<open>Error\<close>.
\<close>

datatype exn = Error string

fun toString :: "exn \<Rightarrow> string" where
  "toString (Error m) = (if m = [] then ''Error'' else ''Error: '' @ m)"

text \<open>How an async function ends: it resolves, or it rejects with the exception.\<close>

datatype completion = Returned | Threw exn

text \<open>\<open>a || b\<close> on an optional string: \<open>undefined\<close> and the empty string are falsy.\<close>

definition falsy :: "string option \<Rightarrow> bool" where
  "falsy s = (s = None \<or> s = Some [])"

definition or_else :: "string option \<Rightarrow> string \<Rightarrow> string" where
  "or_else a b = (case a of None \<Rightarrow> b | Some s \<Rightarrow> if s = [] then b else s)"

text \<open>A template literal renders an absent value as the word \<open>undefined\<close>.\<close>

definition render :: "string option \<Rightarrow> string" where
  "render s = (case s of None \<Rightarrow> ''undefined'' | Some t \<Rightarrow> t)"

subsection \<open>The action log\<close>

text \<open>
  Modelled from the spec: the class \<open>FileLog\<close> (common/file-log) is not among the
  sources. The spec gives it an ordered, append-only sequence of entries, the query
  \<open>getData(kind)\<close> returning the payloads of one kind in append order, and \<open>close()\<close>,
  which flushes and releases the file. The handlers also call \<open>appendLine\<close> and
  \<open>error\<close>; each is kept as an entry of its own kind, so the log records every call
  made on it, in order.
\<close>

datatype LogEntry =
    Action string string
  | Comment string
  | Line string
  | ErrorLine string exn

record FileLog =
  path :: "string option"
  entries :: "LogEntry list"
  closed :: bool

definition new_FileLog :: "string option \<Rightarrow> FileLog" where
  "new_FileLog p = \<lparr>path = p, entries = [], closed = False\<rparr>"

definition addAction :: "string \<Rightarrow> string \<Rightarrow> FileLog \<Rightarrow> FileLog" where
  "addAction kind payload lg = lg\<lparr>entries := entries lg @ [Action kind payload]\<rparr>"

definition addComment :: "string \<Rightarrow> FileLog \<Rightarrow> FileLog" where
  "addComment txt lg = lg\<lparr>entries := entries lg @ [Comment txt]\<rparr>"

definition appendLine :: "string \<Rightarrow> FileLog \<Rightarrow> FileLog" where
  "appendLine txt lg = lg\<lparr>entries := entries lg @ [Line txt]\<rparr>"

definition log_error :: "string \<Rightarrow> exn \<Rightarrow> FileLog \<Rightarrow> FileLog" where
  "log_error msg e lg = lg\<lparr>entries := entries lg @ [ErrorLine msg e]\<rparr>"

definition close :: "FileLog \<Rightarrow> FileLog" where
  "close lg = lg\<lparr>closed := True\<rparr>"

fun payload_of :: "string \<Rightarrow> LogEntry \<Rightarrow> string option" where
  "payload_of kind (Action k p) = (if k = kind then Some p else None)"
| "payload_of kind (Comment t) = None"
| "payload_of kind (Line t) = None"
| "payload_of kind (ErrorLine m e) = None"

definition getData :: "string \<Rightarrow> FileLog \<Rightarrow> string list" where
  "getData kind lg = List.map_filter (payload_of kind) (entries lg)"

subsection \<open>Remote entities and the API client\<close>

text \<open>
  The SDK (dc-management-sdk-js) is an external library. Of a content item the move
  command reads the id and the status; of an event the export command reads the id,
  the name, the start and end dates and the editions it attaches itself. A field that
  is absent (\<open>undefined\<close> or \<open>null\<close>) is \<open>None\<close>; a date is its time value, and
  \<open>None\<close> when the field is absent or does not parse.
\<close>

datatype Status = ACTIVE | ARCHIVED | DELETED

record ContentItem =
  item_id :: string
  item_status :: Status

type_synonym EditionSlot = string

record Edition =
  edition_id :: string
  slots :: "EditionSlot list option"

record Event =
  event_id :: "string option"
  name :: "string option"
  event_start :: "int option"
  event_end :: "int option"
  editions :: "Edition list option"

type_synonym Hub = string

text \<open>
  The client is opaque: every operation is a parameter of the model. An operation runs
  against the state \<open>'r\<close> of the remote service and returns its outcome with the new
  state, so that a call may fail for any reason and at any time.
\<close>

record 'r DynamicContent =
  contentItems_get :: "string \<Rightarrow> 'r \<Rightarrow> (exn + ContentItem) \<times> 'r"
  related_archive :: "ContentItem \<Rightarrow> 'r \<Rightarrow> exn option \<times> 'r"
  related_unarchive :: "ContentItem \<Rightarrow> 'r \<Rightarrow> exn option \<times> 'r"
  hubs_get :: "string \<Rightarrow> 'r \<Rightarrow> (exn + Hub) \<times> 'r"
  events_get :: "string \<Rightarrow> 'r \<Rightarrow> (exn + Event) \<times> 'r"
  events_list :: "Hub \<Rightarrow> 'r \<Rightarrow> (exn + Event list) \<times> 'r"
  editions_list :: "Event \<Rightarrow> 'r \<Rightarrow> (exn + Edition list) \<times> 'r"
  slots_list :: "Edition \<Rightarrow> 'r \<Rightarrow> (exn + EditionSlot list) \<times> 'r"

subsection \<open>The world a command runs in\<close>

type_synonym ExportsMap = "string \<times> string"

datatype call =
    ContentItemsGet string
  | Archive ContentItem
  | Unarchive ContentItem
  | PromptToOverwriteExports "ExportsMap list"
  | EnsureDirectoryExists string
  | WriteJsonToFile string Event
  | TableWrite "string list"
  | NothingExportedExit "string option" bool

text \<open>
  Everything a handler can change: the remote service, the log of the run, what was
  printed, the directories and JSON files on disk, and the trace of the calls the
  handler made on its collaborators, oldest first.
\<close>

record 'r world =
  remote :: 'r
  fileLog :: FileLog
  stdout :: "string list"
  dirs :: "string set"
  files :: "string \<rightharpoonup> Event"
  calls :: "call list"

record Arguments =
  hubId :: string
  clientId :: string
  clientSecret :: string
  dstHubId :: "string option"
  dstClientId :: "string option"
  dstSecret :: "string option"
  revertLog :: "string option"
  logFile :: "string option"
  dir :: string
  eventId :: "string option"
  fromDate :: "int option"
  toDate :: "int option"

definition console_log :: "string \<Rightarrow> 'r world \<Rightarrow> 'r world" where
  "console_log msg w = w\<lparr>stdout := stdout w @ [msg]\<rparr>"

definition called :: "call \<Rightarrow> 'r world \<Rightarrow> 'r world" where
  "called c w = w\<lparr>calls := calls w @ [c]\<rparr>"

definition on_log :: "(FileLog \<Rightarrow> FileLog) \<Rightarrow> 'r world \<Rightarrow> 'r world" where
  "on_log f w = w\<lparr>fileLog := f (fileLog w)\<rparr>"

section \<open>The move command\<close>

subsection \<open>Revert path: unarchive what the log says was moved\<close>

text \<open>
  The body of the loop over \<open>toUnarchive\<close>. Both awaited calls sit in a \<open>try\<close> whose
  \<open>catch\<close> prints and continues, so the body has no exit but the normal one.
\<close>

definition unarchive_item :: "'r DynamicContent \<Rightarrow> string \<Rightarrow> 'r world \<Rightarrow> 'r world" where
  "unarchive_item client i w =
     (case contentItems_get client i (remote w) of
        (Inl e, r1) \<Rightarrow>
          console_log (''Could not find item with id '' @ i @ '', skipping.'')
            (called (ContentItemsGet i) (w\<lparr>remote := r1\<rparr>))
      | (Inr item, r1) \<Rightarrow>
          (let w1 = called (ContentItemsGet i) (w\<lparr>remote := r1\<rparr>) in
           if item_status item \<noteq> ACTIVE then
             (case related_unarchive client item (remote w1) of
                (Some e, r2) \<Rightarrow>
                  console_log (''Could not unarchive item with id '' @ i @ '', skipping.'')
                    (called (Unarchive item) (w1\<lparr>remote := r2\<rparr>))
              | (None, r2) \<Rightarrow> called (Unarchive item) (w1\<lparr>remote := r2\<rparr>))
           else console_log (''Item with id '' @ i @ '' is already unarchived, skipping.'') w1))"

fun unarchive_loop :: "'r DynamicContent \<Rightarrow> string list \<Rightarrow> 'r world \<Rightarrow> completion \<times> 'r world" where
  "unarchive_loop client [] w = (Returned, w)"
| "unarchive_loop client (i # ids) w = unarchive_loop client ids (unarchive_item client i w)"

subsection \<open>Forward path: archive what the copy exported\<close>

text \<open>
  The loop over \<open>exported\<close>. The fetch is awaited outside the \<open>try\<close>: when it rejects,
  the rejection leaves the loop and the handler. Only \<open>archive()\<close> and the \<open>MOVED\<close>
  entry are inside the \<open>try\<close>; the \<open>catch\<close> appends two comments. The status of the
  fetched item is not read.
\<close>

fun archive_loop :: "'r DynamicContent \<Rightarrow> string list \<Rightarrow> 'r world \<Rightarrow> completion \<times> 'r world" where
  "archive_loop client [] w = (Returned, w)"
| "archive_loop client (i # ids) w =
     (case contentItems_get client i (remote w) of
        (Inl e, r1) \<Rightarrow> (Threw e, called (ContentItemsGet i) (w\<lparr>remote := r1\<rparr>))
      | (Inr item, r1) \<Rightarrow>
          (let w1 = called (ContentItemsGet i) (w\<lparr>remote := r1\<rparr>) in
           case related_archive client item (remote w1) of
             (None, r2) \<Rightarrow>
               archive_loop client ids
                 (on_log (addAction ''MOVED'' (item_id item))
                    (called (Archive item) (w1\<lparr>remote := r2\<rparr>)))
           | (Some e, r2) \<Rightarrow>
               archive_loop client ids
                 (on_log (addComment (toString e))
                    (on_log (addComment (''ARCHIVE FAILED: '' @ item_id item))
                       (called (Archive item) (w1\<lparr>remote := r2\<rparr>))))))"

subsection \<open>The handler\<close>

text \<open>
  The collaborators are parameters. \<open>copy_handler\<close> is \<open>copy.handler(argv)\<close>: it is given
  the world (with the fresh log the handler put in \<open>argv.logFile\<close> and the empty
  \<open>argv.exportedIds\<close>) and resolves to its verdict and the ids it pushed, or rejects.
  \<open>loadFromFile\<close> is the log file as \<open>FileLog.loadFromFile\<close> reads it. \<open>revert\<close> is the
  import-revert collaborator, called with the destination credentials.
\<close>

type_synonym 'r copy_collaborator = "Arguments \<Rightarrow> 'r world \<Rightarrow> (exn + bool \<times> string list) \<times> 'r world"

type_synonym 'r revert_collaborator = "Arguments \<Rightarrow> 'r world \<Rightarrow> exn option \<times> 'r world"

definition revert_args :: "Arguments \<Rightarrow> string \<Rightarrow> Arguments" where
  "revert_args argv p =
     \<lparr>hubId = or_else (dstHubId argv) (hubId argv),
      clientId = or_else (dstClientId argv) (clientId argv),
      clientSecret = or_else (dstSecret argv) (clientSecret argv),
      dstHubId = None, dstClientId = None, dstSecret = None,
      revertLog = Some p, logFile = None, dir = [], eventId = None,
      fromDate = None, toDate = None\<rparr>"

definition move_revert ::
  "'r DynamicContent \<Rightarrow> (string \<Rightarrow> exn + FileLog) \<Rightarrow> 'r revert_collaborator \<Rightarrow>
   Arguments \<Rightarrow> string \<Rightarrow> 'r world \<Rightarrow> completion \<times> 'r world" where
  "move_revert client loadFromFile revert argv p w =
     (case loadFromFile p of
        Inl e \<Rightarrow> (Returned, console_log ''Could not open the import log! Aborting.'' w)
      | Inr lg \<Rightarrow>
          (case unarchive_loop client (getData ''MOVED'' lg) w of
             (Threw e, w1) \<Rightarrow> (Threw e, w1)
           | (Returned, w1) \<Rightarrow>
               (case revert (revert_args argv p) w1 of
                  (Some e, w2) \<Rightarrow> (Threw e, w2)
                | (None, w2) \<Rightarrow> (Returned, w2))))"

definition move_forward ::
  "'r DynamicContent \<Rightarrow> 'r copy_collaborator \<Rightarrow> Arguments \<Rightarrow> 'r world \<Rightarrow> completion \<times> 'r world" where
  "move_forward client copy_handler argv w =
     (case copy_handler argv (w\<lparr>fileLog := new_FileLog (logFile argv)\<rparr>) of
        (Inl e, w1) \<Rightarrow> (Threw e, w1)
      | (Inr (copySuccess, exported), w1) \<Rightarrow>
          if \<not> copySuccess then (Returned, w1)
          else
            (case archive_loop client exported w1 of
               (Threw e, w2) \<Rightarrow> (Threw e, w2)
             | (Returned, w2) \<Rightarrow> (Returned, on_log close w2)))"

definition move_handler ::
  "'r DynamicContent \<Rightarrow> 'r copy_collaborator \<Rightarrow> (string \<Rightarrow> exn + FileLog) \<Rightarrow>
   'r revert_collaborator \<Rightarrow> Arguments \<Rightarrow> 'r world \<Rightarrow> completion \<times> 'r world" where
  "move_handler client copy_handler loadFromFile revert argv w =
     (case revertLog argv of
        Some p \<Rightarrow> move_revert client loadFromFile revert argv p w
      | None \<Rightarrow> move_forward client copy_handler argv w)"

subsection \<open>Reading the trace\<close>

fun fetched :: "call list \<Rightarrow> string list" where
  "fetched [] = []"
| "fetched (ContentItemsGet i # cs) = i # fetched cs"
| "fetched (c # cs) = fetched cs"

subsection \<open>An in-memory service for the examples\<close>

text \<open>
  The service keeps a status per id. \<open>get\<close> rejects an unknown id. \<open>archive()\<close> is
  rejected on an archived item and \<open>unarchive()\<close> on an item that is not archived.
  \<open>idempotent_client\<close> differs in one place: its \<open>archive()\<close> always succeeds.
\<close>

definition store_client :: "(string \<rightharpoonup> Status) DynamicContent" where
  "store_client =
     \<lparr>contentItems_get = (\<lambda>i r.
        (case r i of None \<Rightarrow> Inl (Error ''Not Found'')
         | Some st \<Rightarrow> Inr \<lparr>item_id = i, item_status = st\<rparr>, r)),
      related_archive = (\<lambda>item r.
        if item_status item = ARCHIVED then (Some (Error ''The archive action is not available''), r)
        else (None, r(item_id item \<mapsto> ARCHIVED))),
      related_unarchive = (\<lambda>item r.
        if item_status item \<noteq> ARCHIVED then (Some (Error ''The unarchive action is not available''), r)
        else (None, r(item_id item \<mapsto> ACTIVE))),
      hubs_get = (\<lambda>h r. (Inr h, r)),
      events_get = (\<lambda>i r. (Inl (Error ''Not Found''), r)),
      events_list = (\<lambda>h r. (Inr [], r)),
      editions_list = (\<lambda>ev r. (Inr [], r)),
      slots_list = (\<lambda>ed r. (Inr [], r))\<rparr>"

definition idempotent_client :: "(string \<rightharpoonup> Status) DynamicContent" where
  "idempotent_client =
     store_client\<lparr>related_archive := (\<lambda>item r. (None, r(item_id item \<mapsto> ARCHIVED)))\<rparr>"

definition start_world :: "'r \<Rightarrow> 'r world" where
  "start_world r =
     \<lparr>remote = r, fileLog = new_FileLog None, stdout = [], dirs = {}, files = Map.empty, calls = []\<rparr>"

definition move_args :: Arguments where
  "move_args =
     \<lparr>hubId = ''hub'', clientId = ''client'', clientSecret = ''secret'',
      dstHubId = None, dstClientId = None, dstSecret = None,
      revertLog = None, logFile = Some ''move.log'', dir = [], eventId = None,
      fromDate = None, toDate = None\<rparr>"

text \<open>Collaborators of the examples: a copy that fails, a copy that exported two ids.\<close>

definition copy_fails :: "'r copy_collaborator" where
  "copy_fails argv w =
     (Inr (False, [''a'']), on_log (appendLine ''An unexpected error occurred.'') w)"

definition copy_exports_a_b :: "'r copy_collaborator" where
  "copy_exports_a_b argv w = (Inr (True, [''a'', ''b'']), w)"

definition no_log :: "string \<Rightarrow> exn + FileLog" where
  "no_log p = Inl (Error ''ENOENT'')"

definition revert_ok :: "'r revert_collaborator" where
  "revert_ok argv w = (None, w)"

definition failed_copy_run :: "completion \<times> (string \<rightharpoonup> Status) world" where
  "failed_copy_run =
     move_handler store_client copy_fails no_log revert_ok move_args
       (start_world [''a'' \<mapsto> ACTIVE])"

section \<open>Properties of the move command\<close>

subsection \<open>A failed copy leaves the source alone\<close>

text \<open>
  C1. On the forward path, when the copy collaborator resolves to false, the handler
  returns at once with the world exactly as the collaborator left it: it adds no
  \<open>contentItems.get\<close> and no \<open>archive()\<close> call to the trace, leaves the remote service
  untouched and appends nothing to the log, so no \<open>MOVED\<close> entry either.
\<close>

theorem copy_failure_archives_nothing:
  assumes "revertLog argv = None"
    and "copy_handler argv (w\<lparr>fileLog := new_FileLog (logFile argv)\<rparr>) = (Inr (False, exported), w1)"
  shows "move_handler client copy_handler loadFromFile revert argv w = (Returned, w1)
       \<and> calls (snd (move_handler client copy_handler loadFromFile revert argv w)) = calls w1
       \<and> remote (snd (move_handler client copy_handler loadFromFile revert argv w)) = remote w1
       \<and> entries (fileLog (snd (move_handler client copy_handler loadFromFile revert argv w)))
           = entries (fileLog w1)"
  using assms by (simp add: move_handler_def move_forward_def)

theorem copy_failure_archives_nothing_witness:
  "fst failed_copy_run = Returned
   \<and> calls (snd failed_copy_run) = []
   \<and> remote (snd failed_copy_run) ''a'' = Some ACTIVE
   \<and> getData ''MOVED'' (fileLog (snd failed_copy_run)) = []
   \<and> entries (fileLog (snd failed_copy_run)) = [Line ''An unexpected error occurred.'']"
  using copy_failure_archives_nothing [of move_args copy_fails "start_world [''a'' \<mapsto> ACTIVE]" "[''a'']"
     "on_log (appendLine ''An unexpected error occurred.'')
        ((start_world [''a'' \<mapsto> ACTIVE])\<lparr>fileLog := new_FileLog (logFile move_args)\<rparr>)"
     store_client no_log revert_ok]
  by (simp add: failed_copy_run_def move_args_def copy_fails_def start_world_def on_log_def
      appendLine_def new_FileLog_def getData_def map_filter_simps)

subsection \<open>The archive phase does not read the status\<close>

definition archive_twice ::
  "(string \<rightharpoonup> Status) DynamicContent \<Rightarrow> string list \<Rightarrow> (string \<rightharpoonup> Status) \<Rightarrow>
   completion \<times> (string \<rightharpoonup> Status) world" where
  "archive_twice client ids r =
     archive_loop client ids (snd (archive_loop client ids (start_world r)))"

text \<open>
  C2 at the failing input. The copy exported \<open>a\<close>, which is already \<open>ARCHIVED\<close> at the
  source. The revert loop tests the status before it calls \<open>unarchive()\<close>; the archive
  loop has no such test. It calls \<open>archive()\<close> on the item once, not zero times, and
  appends to the log: here the service rejects the call and two comments are
  appended. And with a service whose \<open>archive()\<close> is idempotent, two passes over the
  same id log \<open>MOVED\<close> twice.
\<close>

theorem archived_item_is_archived_again:
  "calls (snd (archive_loop store_client [''a''] (start_world [''a'' \<mapsto> ARCHIVED])))
     = [ContentItemsGet ''a'', Archive \<lparr>item_id = ''a'', item_status = ARCHIVED\<rparr>]
   \<and> entries (fileLog (snd (archive_loop store_client [''a''] (start_world [''a'' \<mapsto> ARCHIVED]))))
     = [Comment ''ARCHIVE FAILED: a'', Comment ''Error: The archive action is not available'']
   \<and> getData ''MOVED'' (fileLog (snd (archive_twice idempotent_client [''a''] [''a'' \<mapsto> ACTIVE])))
     = [''a'', ''a'']"
  by (simp add: store_client_def idempotent_client_def archive_twice_def start_world_def
      called_def on_log_def addComment_def addAction_def new_FileLog_def getData_def
      map_filter_simps)

text \<open>
  What one round of the archive loop does for an id whose fetch succeeds: it calls
  \<open>archive()\<close> on the fetched item and goes on with the next id; it appends one
  \<open>MOVED\<close> entry with the item's id when the call succeeds, and the two comments
  \<open>ARCHIVE FAILED: id\<close> and the error when it fails. A failed \<open>archive()\<close> never stops
  the loop.
\<close>

theorem archive_item_whatever_status:
  assumes "contentItems_get client i (remote w) = (Inr item, r1)"
  shows "archive_loop client (i # ids) w =
         archive_loop client ids
           (w\<lparr>remote := snd (related_archive client item r1),
              calls := calls w @ [ContentItemsGet i, Archive item],
              fileLog := (fileLog w)\<lparr>entries := entries (fileLog w) @
                (case fst (related_archive client item r1) of
                   None \<Rightarrow> [Action ''MOVED'' (item_id item)]
                 | Some e \<Rightarrow> [Comment (''ARCHIVE FAILED: '' @ item_id item), Comment (toString e)])\<rparr>\<rparr>)"
proof (cases "related_archive client item r1")
  case (Pair res r2)
  show ?thesis
  proof (cases res)
    case None
    with Pair assms show ?thesis
      by (simp add: called_def on_log_def addAction_def)
  next
    case (Some e)
    with Pair assms show ?thesis
      by (simp add: called_def on_log_def addComment_def)
  qed
qed

theorem archive_item_whatever_status_witness:
  "archive_loop store_client [''a'', ''b''] (start_world [''a'' \<mapsto> ARCHIVED, ''b'' \<mapsto> ACTIVE]) =
   archive_loop store_client [''b'']
     ((start_world [''a'' \<mapsto> ARCHIVED, ''b'' \<mapsto> ACTIVE])
        \<lparr>calls := [ContentItemsGet ''a'', Archive \<lparr>item_id = ''a'', item_status = ARCHIVED\<rparr>],
         fileLog := (new_FileLog None)
           \<lparr>entries := [Comment ''ARCHIVE FAILED: a'',
                        Comment ''Error: The archive action is not available'']\<rparr>\<rparr>)"
proof -
  have fetch: "contentItems_get store_client ''a''
                 (remote (start_world [''a'' \<mapsto> ARCHIVED, ''b'' \<mapsto> ACTIVE]))
               = (Inr \<lparr>item_id = ''a'', item_status = ARCHIVED\<rparr>,
                  [''a'' \<mapsto> ARCHIVED, ''b'' \<mapsto> ACTIVE])"
    by (simp add: store_client_def start_world_def)
  show ?thesis
    using archive_item_whatever_status [OF fetch, of "[''b'']"]
    by (simp add: store_client_def start_world_def new_FileLog_def)
qed

subsection \<open>A fetch that fails in the archive phase\<close>

definition fetch_fails_run :: "completion \<times> (string \<rightharpoonup> Status) world" where
  "fetch_fails_run =
     move_handler store_client copy_exports_a_b no_log revert_ok move_args
       (start_world [''b'' \<mapsto> ACTIVE])"

text \<open>
  C3 at the failing input. The copy exported \<open>a\<close> and \<open>b\<close>; the source no longer has
  \<open>a\<close>. The rejection of the first fetch leaves the handler: \<open>b\<close> is never fetched
  nor archived, no comment is logged, and the log is not closed.
\<close>

theorem fetch_failure_escapes_archive_phase:
  "fst fetch_fails_run = Threw (Error ''Not Found'')
   \<and> calls (snd fetch_fails_run) = [ContentItemsGet ''a'']
   \<and> remote (snd fetch_fails_run) ''b'' = Some ACTIVE
   \<and> entries (fileLog (snd fetch_fails_run)) = []
   \<and> closed (fileLog (snd fetch_fails_run)) = False"
  by (simp add: fetch_fails_run_def move_handler_def move_forward_def move_args_def
      copy_exports_a_b_def store_client_def start_world_def called_def new_FileLog_def)

subsection \<open>Closing the log\<close>

text \<open>
  C4 at the failing input. When the copy collaborator resolves to false, the handler
  returns with the log of the run still open: \<open>close()\<close> was never called on it, and
  the line the collaborator appended is not flushed.
\<close>

theorem early_return_leaves_log_open:
  "fst failed_copy_run = Returned
   \<and> closed (fileLog (snd failed_copy_run)) = False
   \<and> path (fileLog (snd failed_copy_run)) = Some ''move.log''"
  by (simp add: failed_copy_run_def move_handler_def move_forward_def move_args_def
      copy_fails_def start_world_def on_log_def appendLine_def new_FileLog_def)

subsection \<open>The revert pass\<close>

lemma fetched_append: "fetched (xs @ ys) = fetched xs @ fetched ys"
  by (induction xs rule: fetched.induct) simp_all

lemma fetched_unarchive_item:
  "fetched (calls (unarchive_item client i w)) = fetched (calls w) @ [i]"
  by (simp add: unarchive_item_def called_def console_log_def Let_def fetched_append
      split: prod.splits sum.splits option.splits)

lemma unarchive_loop_returns: "fst (unarchive_loop client ids w) = Returned"
  by (induction ids arbitrary: w) simp_all

lemma unarchive_loop_fetches_all:
  "fetched (calls (snd (unarchive_loop client ids w))) = fetched (calls w) @ ids"
  by (induction ids arbitrary: w) (simp_all add: fetched_unarchive_item)

text \<open>
  C5. The pass over the \<open>MOVED\<close> list always completes normally and fetches every id
  of the list, in order, however many items fail. Each id is handled by one run of the
  loop body, which ends in one of four ways: the fetch is rejected (a skip message,
  nothing else); the item is not \<open>ACTIVE\<close> and \<open>unarchive()\<close> is rejected (the call, then
  a skip message); the item is not \<open>ACTIVE\<close> and \<open>unarchive()\<close> succeeds (the call, no
  message); the item is \<open>ACTIVE\<close> (an informational message, no \<open>unarchive()\<close> call).
\<close>

theorem revert_pass_items_independent:
  "fst (unarchive_loop client ids w) = Returned
   \<and> fetched (calls (snd (unarchive_loop client ids w))) = fetched (calls w) @ ids
   \<and> unarchive_loop client (i # ids) w = unarchive_loop client ids (unarchive_item client i w)
   \<and> (\<forall>e r1. contentItems_get client i (remote w) = (Inl e, r1) \<longrightarrow>
         unarchive_item client i w =
           w\<lparr>remote := r1, calls := calls w @ [ContentItemsGet i],
             stdout := stdout w @ [''Could not find item with id '' @ i @ '', skipping.'']\<rparr>)
   \<and> (\<forall>item r1 e r2. contentItems_get client i (remote w) = (Inr item, r1)
           \<and> item_status item \<noteq> ACTIVE \<and> related_unarchive client item r1 = (Some e, r2) \<longrightarrow>
         unarchive_item client i w =
           w\<lparr>remote := r2, calls := calls w @ [ContentItemsGet i, Unarchive item],
             stdout := stdout w @ [''Could not unarchive item with id '' @ i @ '', skipping.'']\<rparr>)
   \<and> (\<forall>item r1 r2. contentItems_get client i (remote w) = (Inr item, r1)
           \<and> item_status item \<noteq> ACTIVE \<and> related_unarchive client item r1 = (None, r2) \<longrightarrow>
         unarchive_item client i w =
           w\<lparr>remote := r2, calls := calls w @ [ContentItemsGet i, Unarchive item]\<rparr>)
   \<and> (\<forall>item r1. contentItems_get client i (remote w) = (Inr item, r1)
           \<and> item_status item = ACTIVE \<longrightarrow>
         unarchive_item client i w =
           w\<lparr>remote := r1, calls := calls w @ [ContentItemsGet i],
             stdout := stdout w @ [''Item with id '' @ i @ '' is already unarchived, skipping.'']\<rparr>)"
proof -
  have a: "fst (unarchive_loop client ids w) = Returned"
    by (rule unarchive_loop_returns)
  have b: "fetched (calls (snd (unarchive_loop client ids w))) = fetched (calls w) @ ids"
    by (rule unarchive_loop_fetches_all)
  have c: "unarchive_loop client (i # ids) w = unarchive_loop client ids (unarchive_item client i w)"
    by simp
  have d: "\<forall>e r1. contentItems_get client i (remote w) = (Inl e, r1) \<longrightarrow>
         unarchive_item client i w =
           w\<lparr>remote := r1, calls := calls w @ [ContentItemsGet i],
             stdout := stdout w @ [''Could not find item with id '' @ i @ '', skipping.'']\<rparr>"
    by (simp add: unarchive_item_def called_def console_log_def)
  have e: "\<forall>item r1 e r2. contentItems_get client i (remote w) = (Inr item, r1)
           \<and> item_status item \<noteq> ACTIVE \<and> related_unarchive client item r1 = (Some e, r2) \<longrightarrow>
         unarchive_item client i w =
           w\<lparr>remote := r2, calls := calls w @ [ContentItemsGet i, Unarchive item],
             stdout := stdout w @ [''Could not unarchive item with id '' @ i @ '', skipping.'']\<rparr>"
    by (simp add: unarchive_item_def called_def console_log_def)
  have f: "\<forall>item r1 r2. contentItems_get client i (remote w) = (Inr item, r1)
           \<and> item_status item \<noteq> ACTIVE \<and> related_unarchive client item r1 = (None, r2) \<longrightarrow>
         unarchive_item client i w =
           w\<lparr>remote := r2, calls := calls w @ [ContentItemsGet i, Unarchive item]\<rparr>"
    by (simp add: unarchive_item_def called_def console_log_def)
  have g: "\<forall>item r1. contentItems_get client i (remote w) = (Inr item, r1)
           \<and> item_status item = ACTIVE \<longrightarrow>
         unarchive_item client i w =
           w\<lparr>remote := r1, calls := calls w @ [ContentItemsGet i],
             stdout := stdout w @ [''Item with id '' @ i @ '' is already unarchived, skipping.'']\<rparr>"
    by (simp add: unarchive_item_def called_def console_log_def)
  from a b c d e f g show ?thesis by blast
qed

definition moved_item1_log :: "string \<Rightarrow> exn + FileLog" where
  "moved_item1_log p = Inr (addAction ''MOVED'' ''item1'' (new_FileLog None))"

definition revert_run :: "completion \<times> (string \<rightharpoonup> Status) world" where
  "revert_run =
     move_handler store_client copy_fails moved_item1_log revert_ok
       (move_args\<lparr>revertLog := Some ''move.log''\<rparr>) (start_world Map.empty)"

text \<open>
  The pass at concrete inputs, one for each way the loop body ends. The first is the
  scenario of a log holding \<open>MOVED item1\<close> where the fetch of \<open>item1\<close> is rejected.
\<close>

theorem revert_pass_items_independent_witness:
  "fst (unarchive_loop store_client [''item1''] (start_world Map.empty)) = Returned
   \<and> revert_run = (Returned, (start_world Map.empty)
        \<lparr>calls := [ContentItemsGet ''item1''],
         stdout := [''Could not find item with id item1, skipping.'']\<rparr>)
   \<and> stdout (unarchive_item store_client ''item4'' (start_world [''item4'' \<mapsto> DELETED]))
       = [''Could not unarchive item with id item4, skipping.'']
   \<and> calls (unarchive_item store_client ''item4'' (start_world [''item4'' \<mapsto> DELETED]))
       = [ContentItemsGet ''item4'', Unarchive \<lparr>item_id = ''item4'', item_status = DELETED\<rparr>]
   \<and> stdout (unarchive_item store_client ''item2'' (start_world [''item2'' \<mapsto> ARCHIVED])) = []
   \<and> calls (unarchive_item store_client ''item2'' (start_world [''item2'' \<mapsto> ARCHIVED]))
       = [ContentItemsGet ''item2'', Unarchive \<lparr>item_id = ''item2'', item_status = ARCHIVED\<rparr>]
   \<and> remote (unarchive_item store_client ''item2'' (start_world [''item2'' \<mapsto> ARCHIVED])) ''item2''
       = Some ACTIVE
   \<and> stdout (unarchive_item store_client ''item3'' (start_world [''item3'' \<mapsto> ACTIVE]))
       = [''Item with id item3 is already unarchived, skipping.'']
   \<and> calls (unarchive_item store_client ''item3'' (start_world [''item3'' \<mapsto> ACTIVE]))
       = [ContentItemsGet ''item3'']"
proof -
  note t1 = revert_pass_items_independent [of store_client "[]" "start_world Map.empty" "''item1''"]
  note t2 = revert_pass_items_independent [of store_client "[]" "start_world [''item2'' \<mapsto> ARCHIVED]" "''item2''"]
  note t3 = revert_pass_items_independent [of store_client "[]" "start_world [''item3'' \<mapsto> ACTIVE]" "''item3''"]
  note t4 = revert_pass_items_independent [of store_client "[]" "start_world [''item4'' \<mapsto> DELETED]" "''item4''"]
  have get1: "contentItems_get store_client ''item1'' (remote (start_world Map.empty))
              = (Inl (Error ''Not Found''), Map.empty)"
    by (simp add: store_client_def start_world_def)
  have step1: "unarchive_item store_client ''item1'' (start_world Map.empty) =
        (start_world Map.empty)
        \<lparr>calls := [ContentItemsGet ''item1''],
         stdout := [''Could not find item with id item1, skipping.'']\<rparr>"
    using t1 get1 by (simp add: start_world_def)
  have loop1: "unarchive_loop store_client [''item1''] (start_world Map.empty)
               = (Returned, unarchive_item store_client ''item1'' (start_world Map.empty))"
    using t1 by simp
  have run: "revert_run = (Returned, unarchive_item store_client ''item1'' (start_world Map.empty))"
    by (simp add: revert_run_def move_handler_def move_revert_def moved_item1_log_def move_args_def
        getData_def addAction_def new_FileLog_def map_filter_simps revert_ok_def)
  have get2: "contentItems_get store_client ''item2'' (remote (start_world [''item2'' \<mapsto> ARCHIVED]))
              = (Inr \<lparr>item_id = ''item2'', item_status = ARCHIVED\<rparr>, [''item2'' \<mapsto> ARCHIVED])"
    by (simp add: store_client_def start_world_def)
  have un2: "related_unarchive store_client \<lparr>item_id = ''item2'', item_status = ARCHIVED\<rparr> [''item2'' \<mapsto> ARCHIVED]
              = (None, [''item2'' \<mapsto> ACTIVE])"
    by (simp add: store_client_def)
  have step2: "unarchive_item store_client ''item2'' (start_world [''item2'' \<mapsto> ARCHIVED]) =
        (start_world [''item2'' \<mapsto> ARCHIVED])
        \<lparr>remote := [''item2'' \<mapsto> ACTIVE],
         calls := calls (start_world [''item2'' \<mapsto> ARCHIVED]) @
           [ContentItemsGet ''item2'', Unarchive \<lparr>item_id = ''item2'', item_status = ARCHIVED\<rparr>]\<rparr>"
    using t2 get2 un2 by simp
  have get3: "contentItems_get store_client ''item3'' (remote (start_world [''item3'' \<mapsto> ACTIVE]))
              = (Inr \<lparr>item_id = ''item3'', item_status = ACTIVE\<rparr>, [''item3'' \<mapsto> ACTIVE])"
    by (simp add: store_client_def start_world_def)
  have step3: "unarchive_item store_client ''item3'' (start_world [''item3'' \<mapsto> ACTIVE]) =
        (start_world [''item3'' \<mapsto> ACTIVE])
        \<lparr>remote := [''item3'' \<mapsto> ACTIVE],
         calls := calls (start_world [''item3'' \<mapsto> ACTIVE]) @ [ContentItemsGet ''item3''],
         stdout := stdout (start_world [''item3'' \<mapsto> ACTIVE]) @
           [''Item with id item3 is already unarchived, skipping.'']\<rparr>"
    using t3 get3 by simp
  have get4: "contentItems_get store_client ''item4'' (remote (start_world [''item4'' \<mapsto> DELETED]))
              = (Inr \<lparr>item_id = ''item4'', item_status = DELETED\<rparr>, [''item4'' \<mapsto> DELETED])"
    by (simp add: store_client_def start_world_def)
  have un4: "related_unarchive store_client \<lparr>item_id = ''item4'', item_status = DELETED\<rparr> [''item4'' \<mapsto> DELETED]
              = (Some (Error ''The unarchive action is not available''), [''item4'' \<mapsto> DELETED])"
    by (simp add: store_client_def)
  have step4: "unarchive_item store_client ''item4'' (start_world [''item4'' \<mapsto> DELETED]) =
        (start_world [''item4'' \<mapsto> DELETED])
        \<lparr>remote := [''item4'' \<mapsto> DELETED],
         calls := calls (start_world [''item4'' \<mapsto> DELETED]) @
           [ContentItemsGet ''item4'', Unarchive \<lparr>item_id = ''item4'', item_status = DELETED\<rparr>],
         stdout := stdout (start_world [''item4'' \<mapsto> DELETED]) @
           [''Could not unarchive item with id item4, skipping.'']\<rparr>"
    using t4 get4 un4 by simp
  show ?thesis
    unfolding run loop1 step1 step2 step3 step4
    by (simp add: start_world_def)
qed

section \<open>The export command\<close>

text \<open>
  A non-negative integer in a template literal: its decimal digits. \<open>digit_char\<close> is
  only applied to numbers below 10.
\<close>

definition digit_char :: "nat \<Rightarrow> char" where
  "digit_char d = ''0123456789'' ! d"

function show_nat :: "nat \<Rightarrow> string" where
  "show_nat n = (if n < 10 then [digit_char n] else show_nat (n div 10) @ [digit_char (n mod 10)])"
  by pat_completeness auto
termination
  by (relation "measure id") auto

declare show_nat.simps [simp del]

lemma of_char_digit: "d < 10 \<Longrightarrow> of_char (digit_char d) = 48 + d"
proof -
  assume "d < 10"
  then have "d = 0 \<or> d = 1 \<or> d = 2 \<or> d = 3 \<or> d = 4 \<or> d = 5 \<or> d = 6 \<or> d = 7 \<or> d = 8 \<or> d = 9"
    by arith
  then show ?thesis
    by (elim disjE) (simp_all add: digit_char_def)
qed

lemma digit_char_inj:
  assumes "a < 10" and "b < 10" and "digit_char a = digit_char b"
  shows "a = b"
proof -
  have "(of_char (digit_char a) :: nat) = of_char (digit_char b)"
    by (rule arg_cong [OF assms(3)])
  then have "48 + a = 48 + b"
    by (simp only: of_char_digit [OF assms(1)] of_char_digit [OF assms(2)])
  then show ?thesis
    by (simp only: add_left_cancel)
qed

lemma show_nat_nonempty: "show_nat n \<noteq> []" "[] \<noteq> show_nat n"
  by (subst show_nat.simps, simp)+

lemma show_nat_inj: "show_nat n = show_nat m \<Longrightarrow> n = m"
proof (induction n arbitrary: m rule: show_nat.induct)
  case (1 n)
  show ?case
  proof (cases "n < 10")
    case True
    then have n: "show_nat n = [digit_char n]"
      by (subst show_nat.simps) simp
    show ?thesis
    proof (cases "m < 10")
      case m: True
      then have "show_nat m = [digit_char m]"
        by (subst show_nat.simps) simp
      with n "1.prems" True m show ?thesis
        by (simp add: digit_char_inj)
    next
      case False
      then have "show_nat m = show_nat (m div 10) @ [digit_char (m mod 10)]"
        by (subst show_nat.simps) simp
      with n "1.prems" show ?thesis
        by (simp add: show_nat_nonempty)
    qed
  next
    case False
    then have n: "show_nat n = show_nat (n div 10) @ [digit_char (n mod 10)]"
      by (subst show_nat.simps) simp
    show ?thesis
    proof (cases "m < 10")
      case True
      then have "show_nat m = [digit_char m]"
        by (subst show_nat.simps) simp
      with n "1.prems" show ?thesis
        by (simp add: show_nat_nonempty)
    next
      case m: False
      then have "show_nat m = show_nat (m div 10) @ [digit_char (m mod 10)]"
        by (subst show_nat.simps) simp
      with n "1.prems" have eq: "show_nat (n div 10) = show_nat (m div 10)"
        and d: "digit_char (n mod 10) = digit_char (m mod 10)"
        by simp_all
      from "1.IH" [OF False eq] have "n div 10 = m div 10" .
      moreover from d have "n mod 10 = m mod 10"
        by (simp add: digit_char_inj)
      ultimately show ?thesis
        by (metis div_mult_mod_eq)
    qed
  qed
qed

subsection \<open>Allocating a file name\<close>

text \<open>
  Modelled from the spec: \<open>uniqueFilenamePath\<close> (services/export.service) is not among
  the sources. The spec derives the name from the entity's display name and resolves
  a collision by appending a numeric suffix until the name is unique among the names
  given; its example is \<open>x.json\<close>, then \<open>x-1.json\<close>. The file lies in the output
  directory, as the paths read back by the command's tests show. The search counts
  upwards from 0; it terminates because the candidates are pairwise different.
\<close>

definition dir_prefix :: "string \<Rightarrow> string" where
  "dir_prefix d = (if d = [] \<or> last d = CHR ''/'' then d else d @ ''/'')"

definition base_name :: "string option \<Rightarrow> string" where
  "base_name nm = (case nm of None \<Rightarrow> [] | Some f \<Rightarrow> f)"

definition candidate :: "string \<Rightarrow> string option \<Rightarrow> string \<Rightarrow> nat \<Rightarrow> string" where
  "candidate d nm ext n =
     dir_prefix d @ base_name nm @ (if n = 0 then [] else ''-'' @ show_nat n) @ ''.'' @ ext"

lemma candidate_inj: "candidate d nm ext n = candidate d nm ext m \<Longrightarrow> n = m"
  by (auto simp: candidate_def show_nat_nonempty dest: show_nat_inj split: if_splits)

lemma finite_taken: "finite {k. candidate d nm ext k \<in> set used}"
proof -
  have "inj (candidate d nm ext)"
    by (rule injI) (rule candidate_inj)
  then have "finite (candidate d nm ext -` set used)"
    by (intro finite_vimageI) simp_all
  then show ?thesis
    by (simp add: vimage_def)
qed

function unique_from :: "string \<Rightarrow> string option \<Rightarrow> string \<Rightarrow> string list \<Rightarrow> nat \<Rightarrow> string" where
  "unique_from d nm ext used n =
     (if candidate d nm ext n \<in> set used then unique_from d nm ext used (Suc n)
      else candidate d nm ext n)"
  by pat_completeness auto
termination
proof (relation "measure (\<lambda>(d, nm, ext, used, n). card {k. n \<le> k \<and> candidate d nm ext k \<in> set used})")
  show "wf (measure (\<lambda>(d, nm, ext, used, n). card {k. n \<le> k \<and> candidate d nm ext k \<in> set used}))"
    by simp
next
  fix d nm ext used n
  assume taken: "candidate d nm ext n \<in> set used"
  have fin: "finite {k. n \<le> k \<and> candidate d nm ext k \<in> set used}"
    by (rule finite_subset [OF _ finite_taken [of d nm ext used]]) auto
  have "n \<in> {k. n \<le> k \<and> candidate d nm ext k \<in> set used}"
    using taken by simp
  moreover have "n \<notin> {k. Suc n \<le> k \<and> candidate d nm ext k \<in> set used}"
    by simp
  moreover have "{k. Suc n \<le> k \<and> candidate d nm ext k \<in> set used}
          \<subseteq> {k. n \<le> k \<and> candidate d nm ext k \<in> set used}"
    by auto
  ultimately have "{k. Suc n \<le> k \<and> candidate d nm ext k \<in> set used}
          \<subset> {k. n \<le> k \<and> candidate d nm ext k \<in> set used}"
    by blast
  then have "card {k. Suc n \<le> k \<and> candidate d nm ext k \<in> set used}
          < card {k. n \<le> k \<and> candidate d nm ext k \<in> set used}"
    by (rule psubset_card_mono [OF fin])
  then show "((d, nm, ext, used, Suc n), (d, nm, ext, used, n))
      \<in> measure (\<lambda>(d, nm, ext, used, n). card {k. n \<le> k \<and> candidate d nm ext k \<in> set used})"
    by simp
qed

declare unique_from.simps [simp del]

definition uniqueFilenamePath :: "string \<Rightarrow> string option \<Rightarrow> string \<Rightarrow> string list \<Rightarrow> string" where
  "uniqueFilenamePath d nm ext used = unique_from d nm ext used 0"

lemma unique_from_fresh: "unique_from d nm ext used n \<notin> set used"
  by (induction d nm ext used n rule: unique_from.induct) (subst unique_from.simps, simp)

lemma uniqueFilenamePath_fresh: "uniqueFilenamePath d nm ext used \<notin> set used"
  by (simp add: uniqueFilenamePath_def unique_from_fresh)

subsection \<open>The index of previously exported events\<close>

text \<open>
  \<open>previouslyExportedEvents\<close> is an object from file name to event. Its keys are file
  paths, so \<open>Object.keys\<close> and \<open>Object.values\<close> list them in insertion order: the
  object is a list of pairs. Assigning to a key replaces the value in place when the
  key is there, and adds the pair at the end when it is not.
\<close>

type_synonym exported_index = "(string \<times> Event) list"

fun obj_set :: "(string \<times> 'a) list \<Rightarrow> string \<Rightarrow> 'a \<Rightarrow> (string \<times> 'a) list" where
  "obj_set [] k v = [(k, v)]"
| "obj_set ((k', v') # kvs) k v =
     (if k' = k then (k, v) # kvs else (k', v') # obj_set kvs k v)"

text \<open>\<open>Array.prototype.findIndex\<close>: the first index that satisfies, or -1.\<close>

fun findIndex :: "('a \<Rightarrow> bool) \<Rightarrow> 'a list \<Rightarrow> int" where
  "findIndex p [] = - 1"
| "findIndex p (x # xs) =
     (if p x then 0 else if findIndex p xs < 0 then - 1 else findIndex p xs + 1)"

subsection \<open>Classifying the events\<close>

datatype ExportResult = CREATED | UPDATED | UP_TO_DATE

fun result_text :: "ExportResult \<Rightarrow> string" where
  "result_text CREATED = ''CREATED''"
| "result_text UPDATED = ''UPDATED''"
| "result_text UP_TO_DATE = ''UP-TO-DATE''"

record ExportRecord =
  filename :: string
  status :: ExportResult
  event :: Event

text \<open>
  The function returns the record and the index, which it changes in place when it
  allocates a name. The comparison with the previous export is commented out in the
  source, so the branch of a match returns \<open>UPDATED\<close> at once.
\<close>

definition getExportRecordForEvent ::
  "Event \<Rightarrow> string \<Rightarrow> exported_index \<Rightarrow> ExportRecord \<times> exported_index" where
  "getExportRecordForEvent ev outputDir previouslyExportedEvents =
     (let indexOfExportedContentType =
            findIndex (\<lambda>c. event_id c = event_id ev) (map snd previouslyExportedEvents)
      in if indexOfExportedContentType < 0 then
           (let fname = uniqueFilenamePath outputDir (name ev) ''json''
                          (map fst previouslyExportedEvents)
            in (\<lparr>filename = fname, status = CREATED, event = ev\<rparr>,
                obj_set previouslyExportedEvents fname ev))
         else
           (\<lparr>filename = map fst previouslyExportedEvents ! nat indexOfExportedContentType,
             status = UPDATED, event = ev\<rparr>,
            previouslyExportedEvents))"

text \<open>
  The loop of \<open>getEventExports\<close>, with the two arrays it pushes to. An event whose id
  is falsy (absent or empty) is skipped.
\<close>

fun getEventExports_loop ::
  "string \<Rightarrow> Event list \<Rightarrow> exported_index \<Rightarrow> ExportRecord list \<Rightarrow> ExportsMap list \<Rightarrow>
   ExportRecord list \<times> ExportsMap list \<times> exported_index" where
  "getEventExports_loop outputDir [] prev allExports updatedExportsMap =
     (allExports, updatedExportsMap, prev)"
| "getEventExports_loop outputDir (ev # evs) prev allExports updatedExportsMap =
     (case event_id ev of
        None \<Rightarrow> getEventExports_loop outputDir evs prev allExports updatedExportsMap
      | Some uri \<Rightarrow>
          if uri = [] then getEventExports_loop outputDir evs prev allExports updatedExportsMap
          else
            (case getExportRecordForEvent ev outputDir prev of
               (exportRecord, prev') \<Rightarrow>
                 getEventExports_loop outputDir evs prev' (allExports @ [exportRecord])
                   (if status exportRecord = UPDATED
                    then updatedExportsMap @ [(uri, filename exportRecord)]
                    else updatedExportsMap)))"

definition getEventExports ::
  "string \<Rightarrow> exported_index \<Rightarrow> Event list \<Rightarrow>
   ExportRecord list \<times> ExportsMap list \<times> exported_index" where
  "getEventExports outputDir previouslyExportedEvents eventsBeingExported =
     getEventExports_loop outputDir eventsBeingExported previouslyExportedEvents [] []"

subsection \<open>Enrichment\<close>

fun enrichEditions ::
  "'r DynamicContent \<Rightarrow> Edition list \<Rightarrow> 'r \<Rightarrow> (exn + Edition list) \<times> 'r" where
  "enrichEditions client [] r = (Inr [], r)"
| "enrichEditions client (edition # eds) r =
     (case slots_list client edition r of
        (Inl e, r1) \<Rightarrow> (Inl e, r1)
      | (Inr sl, r1) \<Rightarrow>
          (case enrichEditions client eds r1 of
             (Inl e, r2) \<Rightarrow> (Inl e, r2)
           | (Inr eds', r2) \<Rightarrow> (Inr (edition\<lparr>slots := Some sl\<rparr> # eds'), r2)))"

text \<open>The body of the \<open>try\<close> in \<open>enrichEvents\<close>: list the editions, then their slots.\<close>

definition fetch_editions ::
  "'r DynamicContent \<Rightarrow> Event \<Rightarrow> 'r \<Rightarrow> (exn + Edition list) \<times> 'r" where
  "fetch_editions client ev r =
     (case editions_list client ev r of
        (Inl e, r1) \<Rightarrow> (Inl e, r1)
      | (Inr eds, r1) \<Rightarrow> enrichEditions client eds r1)"

text \<open>
  \<open>with_log\<close> says whether the optional \<open>log\<close> was passed. A failure is caught and
  logged; the event keeps the editions it had, which for a fetched event is none.
\<close>

fun enrichEvents_loop ::
  "'r DynamicContent \<Rightarrow> bool \<Rightarrow> Event list \<Rightarrow> 'r world \<Rightarrow> Event list \<times> 'r world" where
  "enrichEvents_loop client with_log [] w = ([], w)"
| "enrichEvents_loop client with_log (ev # evs) w =
     (let w1 = (if with_log
                then on_log (appendLine (''Fetching '' @ render (name ev) @ '' with editions.'')) w
                else w)
      in case fetch_editions client ev (remote w1) of
           (Inr eds, r1) \<Rightarrow>
             (case enrichEvents_loop client with_log evs (w1\<lparr>remote := r1\<rparr>) of
                (rest, w2) \<Rightarrow> (ev\<lparr>editions := Some eds\<rparr> # rest, w2))
         | (Inl e, r1) \<Rightarrow>
             (case enrichEvents_loop client with_log evs
                     (if with_log
                      then on_log (log_error (''Failed to fetch editions for '' @ render (name ev)
                                                @ '', skipping.'') e) (w1\<lparr>remote := r1\<rparr>)
                      else w1\<lparr>remote := r1\<rparr>) of
                (rest, w2) \<Rightarrow> (ev # rest, w2)))"

definition enrichEvents ::
  "'r DynamicContent \<Rightarrow> bool \<Rightarrow> Event list \<Rightarrow> 'r world \<Rightarrow> Event list \<times> 'r world" where
  "enrichEvents client with_log events w =
     (case enrichEvents_loop client with_log events w of
        (result, w1) \<Rightarrow> (filter (\<lambda>ev. editions ev \<noteq> None) result, w1))"

subsection \<open>Writing the export\<close>

text \<open>
  Modelled from the spec: \<open>nothingExportedExit\<close>, \<open>promptToOverwriteExports\<close> and
  \<open>writeJsonToFile\<close> (services/export.service) and \<open>ensureDirectoryExists\<close>
  (common/import/directory-utils) are not among the sources. Each call is recorded in
  the trace. \<open>nothingExportedExit\<close> gives the notice of a run that exports nothing;
  it is called with \<open>exit = false\<close> and the handler goes on after it.
  \<open>ensureDirectoryExists\<close> adds the directory, \<open>writeJsonToFile\<close> sets the content of
  the file. The answer of the user to \<open>promptToOverwriteExports\<close> is the parameter
  \<open>prompt\<close>.
\<close>

definition nothingExportedExit :: "string option \<Rightarrow> bool \<Rightarrow> 'r world \<Rightarrow> 'r world" where
  "nothingExportedExit msg exit w = called (NothingExportedExit msg exit) w"

definition ensureDirectoryExists :: "string \<Rightarrow> 'r world \<Rightarrow> 'r world" where
  "ensureDirectoryExists d w = called (EnsureDirectoryExists d) (w\<lparr>dirs := insert d (dirs w)\<rparr>)"

definition writeJsonToFile :: "string \<Rightarrow> Event \<Rightarrow> 'r world \<Rightarrow> 'r world" where
  "writeJsonToFile fname ev w =
     called (WriteJsonToFile fname ev) (w\<lparr>files := (files w)(fname \<mapsto> ev)\<rparr>)"

text \<open>
  The loop over \<open>allExports\<close>: the id is deleted before the event is written. The
  header row is written in bold, which styles the text and is left out here.
\<close>

fun write_exports :: "ExportRecord list \<Rightarrow> 'r world \<Rightarrow> 'r world" where
  "write_exports [] w = w"
| "write_exports (r # rs) w =
     write_exports rs
       (called (TableWrite [filename r, or_else (name (event r)) [], result_text (status r)])
          (if status r \<noteq> UP_TO_DATE
           then writeJsonToFile (filename r) ((event r)\<lparr>event_id := None\<rparr>) w
           else w))"

definition write_all :: "string \<Rightarrow> ExportRecord list \<Rightarrow> 'r world \<Rightarrow> 'r world" where
  "write_all outputDir allExports w =
     console_log [CHR 0x0A]
       (write_exports allExports
          (called (TableWrite [''File'', ''Schema ID'', ''Result''])
             (ensureDirectoryExists outputDir w)))"

definition processEvents ::
  "'r DynamicContent \<Rightarrow> (ExportsMap list \<Rightarrow> bool) \<Rightarrow> string \<Rightarrow> exported_index \<Rightarrow>
   Event list \<Rightarrow> 'r world \<Rightarrow> 'r world" where
  "processEvents client prompt outputDir previouslyExportedEvents eventsBeingExported w =
     (if eventsBeingExported = [] then
        nothingExportedExit (Some (''No events to export from this hub, exiting.'' @ [CHR 0x0A])) False w
      else
        (case enrichEvents client True eventsBeingExported w of
           (enrichedEvents, w1) \<Rightarrow>
             (case getEventExports outputDir previouslyExportedEvents enrichedEvents of
                (allExports, updatedExportsMap, prev') \<Rightarrow>
                  if allExports = [] then nothingExportedExit None False w1
                  else if updatedExportsMap \<noteq> [] then
                    (let w2 = called (PromptToOverwriteExports updatedExportsMap) w1
                     in if \<not> prompt updatedExportsMap then nothingExportedExit None False w2
                        else write_all outputDir allExports w2)
                  else write_all outputDir allExports w1)))"

subsection \<open>The handler\<close>

text \<open>
  A date that does not parse compares false with everything; it is \<open>None\<close> here.
\<close>

definition before :: "int option \<Rightarrow> int option \<Rightarrow> bool" where
  "before a b = (case (a, b) of (Some x, Some y) \<Rightarrow> x < y | _ \<Rightarrow> False)"

definition filterEvents :: "Event list \<Rightarrow> int option \<Rightarrow> int option \<Rightarrow> Event list" where
  "filterEvents events from to =
     filter (\<lambda>ev. \<not> (from \<noteq> None \<and> before (event_end ev) from)
                \<and> \<not> (to \<noteq> None \<and> before to (event_start ev))) events"

text \<open>
  \<open>previouslyExportedEvents\<close> is what \<open>loadJsonFromDirectory\<close> read from the output
  directory; \<open>fromDate\<close> and \<open>toDate\<close> hold the dates \<open>relativeDate\<close> computed.
\<close>

definition finish_export ::
  "'r DynamicContent \<Rightarrow> (ExportsMap list \<Rightarrow> bool) \<Rightarrow> exported_index \<Rightarrow> Arguments \<Rightarrow>
   Event list \<Rightarrow> 'r world \<Rightarrow> 'r world" where
  "finish_export client prompt previouslyExportedEvents argv filteredEvents w =
     on_log close
       (on_log (appendLine ''Done.'')
          (processEvents client prompt (dir argv) previouslyExportedEvents filteredEvents w))"

text \<open>The branch taken when no id was given: list the events of the hub.\<close>

definition list_and_export ::
  "'r DynamicContent \<Rightarrow> (ExportsMap list \<Rightarrow> bool) \<Rightarrow> exported_index \<Rightarrow> Arguments \<Rightarrow>
   Hub \<Rightarrow> 'r world \<Rightarrow> 'r world" where
  "list_and_export client prompt previouslyExportedEvents argv hub w =
     (case events_list client hub (remote w) of
        (Inl e, r2) \<Rightarrow>
          finish_export client prompt previouslyExportedEvents argv []
            (on_log (log_error ''Failed to list events.'' e) (w\<lparr>remote := r2\<rparr>))
      | (Inr storedEvents, r2) \<Rightarrow>
          (let filteredEvents = filterEvents storedEvents (fromDate argv) (toDate argv) in
           finish_export client prompt previouslyExportedEvents argv filteredEvents
             (on_log (appendLine (''Exporting '' @ show_nat (length filteredEvents) @ '' of ''
                                    @ show_nat (length storedEvents) @ '' events...''))
                (w\<lparr>remote := r2\<rparr>))))"

definition export_handler ::
  "'r DynamicContent \<Rightarrow> (ExportsMap list \<Rightarrow> bool) \<Rightarrow> exported_index \<Rightarrow> Arguments \<Rightarrow>
   'r world \<Rightarrow> 'r world" where
  "export_handler client prompt previouslyExportedEvents argv w =
     (let w0 = w\<lparr>fileLog := new_FileLog (logFile argv)\<rparr> in
      case hubs_get client (hubId argv) (remote w0) of
        (Inl e, r1) \<Rightarrow>
          on_log close
            (on_log (log_error (''Couldn't get hub with id '' @ hubId argv @ '', aborting.'') e)
               (w0\<lparr>remote := r1\<rparr>))
      | (Inr hub, r1) \<Rightarrow>
          (case eventId argv of
             Some i \<Rightarrow>
               if i \<noteq> [] then
                 (case events_get client i r1 of
                    (Inl e, r2) \<Rightarrow>
                      on_log close
                        (on_log (log_error (''Failed to get event with id '' @ i @ '', aborting.'') e)
                           (w0\<lparr>remote := r2\<rparr>))
                  | (Inr ev, r2) \<Rightarrow>
                      finish_export client prompt previouslyExportedEvents argv [ev]
                        (on_log (appendLine (''Exporting single event '' @ render (name ev) @ ''.''))
                           (w0\<lparr>remote := r2\<rparr>)))
               else list_and_export client prompt previouslyExportedEvents argv hub (w0\<lparr>remote := r1\<rparr>)
           | None \<Rightarrow>
               list_and_export client prompt previouslyExportedEvents argv hub (w0\<lparr>remote := r1\<rparr>)))"

section \<open>Properties of the export command\<close>

subsection \<open>Index lookups\<close>

lemma findIndex_ge: "- 1 \<le> findIndex p xs"
  by (induction xs) simp_all

lemma findIndex_neg_iff: "findIndex p xs < 0 \<longleftrightarrow> (\<forall>x\<in>set xs. \<not> p x)"
  using findIndex_ge [of p] by (induction xs) (auto simp: not_less)

lemma findIndex_found:
  "\<not> findIndex p xs < 0 \<Longrightarrow> nat (findIndex p xs) < length xs \<and> p (xs ! nat (findIndex p xs))"
proof (induction xs)
  case Nil
  then show ?case by simp
next
  case (Cons x xs)
  show ?case
  proof (cases "p x")
    case True
    then show ?thesis by simp
  next
    case False
    with Cons.prems have nn: "\<not> findIndex p xs < 0"
      by (simp split: if_splits)
    from Cons.IH [OF nn] False nn show ?thesis
      by (simp add: nat_add_distrib)
  qed
qed

lemma findIndex_find:
  "\<not> findIndex p (map snd kvs) < 0 \<Longrightarrow>
   List.find (\<lambda>kv. p (snd kv)) kvs = Some (kvs ! nat (findIndex p (map snd kvs)))"
proof (induction kvs)
  case Nil
  then show ?case by simp
next
  case (Cons kv kvs)
  show ?case
  proof (cases "p (snd kv)")
    case True
    then show ?thesis by simp
  next
    case False
    with Cons.prems have nn: "\<not> findIndex p (map snd kvs) < 0"
      by (simp split: if_splits)
    from Cons.IH [OF nn] False nn show ?thesis
      by (simp add: nat_add_distrib)
  qed
qed

lemma obj_set_fresh: "k \<notin> set (map fst kvs) \<Longrightarrow> obj_set kvs k v = kvs @ [(k, v)]"
  by (induction kvs) auto

lemma record_never_up_to_date:
  "status (fst (getExportRecordForEvent ev outputDir prev)) \<noteq> UP_TO_DATE"
  by (simp add: getExportRecordForEvent_def Let_def)

lemma loop_never_up_to_date:
  "\<forall>r\<in>set acc. status r \<noteq> UP_TO_DATE \<Longrightarrow>
   \<forall>r\<in>set (fst (getEventExports_loop outputDir evs prev acc upd)). status r \<noteq> UP_TO_DATE"
proof (induction evs arbitrary: prev acc upd)
  case Nil
  then show ?case by simp
next
  case (Cons ev evs)
  show ?case
  proof (cases "falsy (event_id ev)")
    case True
    with Cons show ?thesis
      by (auto simp: falsy_def)
  next
    case False
    then obtain uri where uri: "event_id ev = Some uri" "uri \<noteq> []"
      by (auto simp: falsy_def)
    obtain r prev' where step: "getExportRecordForEvent ev outputDir prev = (r, prev')"
      by (cases "getExportRecordForEvent ev outputDir prev")
    have "status r \<noteq> UP_TO_DATE"
      using record_never_up_to_date [of ev outputDir prev] step by simp
    with Cons.prems have "\<forall>x\<in>set (acc @ [r]). status x \<noteq> UP_TO_DATE"
      by simp
    from Cons.IH [OF this] uri step show ?thesis
      by simp
  qed
qed

text \<open>
  C8. An event whose id equals the id of an entry of the index is classified
  \<open>UPDATED\<close>; its file name is the key of the first such entry, and the index is left
  as it was. No input makes the classification \<open>UP-TO-DATE\<close>: not one call of
  \<open>getExportRecordForEvent\<close>, and so no record of a batch.
\<close>

theorem matched_event_is_updated:
  "((\<exists>c\<in>set (map snd prev). event_id c = event_id ev) \<longrightarrow>
      status (fst (getExportRecordForEvent ev outputDir prev)) = UPDATED
      \<and> (\<exists>c. List.find (\<lambda>kv. event_id (snd kv) = event_id ev) prev
               = Some (filename (fst (getExportRecordForEvent ev outputDir prev)), c))
      \<and> snd (getExportRecordForEvent ev outputDir prev) = prev)
   \<and> status (fst (getExportRecordForEvent ev outputDir prev)) \<noteq> UP_TO_DATE
   \<and> (\<forall>r\<in>set (fst (getEventExports outputDir prev evs)). status r \<noteq> UP_TO_DATE)"
proof -
  have matched: "status (fst (getExportRecordForEvent ev outputDir prev)) = UPDATED
      \<and> (\<exists>c. List.find (\<lambda>kv. event_id (snd kv) = event_id ev) prev
               = Some (filename (fst (getExportRecordForEvent ev outputDir prev)), c))
      \<and> snd (getExportRecordForEvent ev outputDir prev) = prev"
    if m: "\<exists>c\<in>set (map snd prev). event_id c = event_id ev"
  proof -
    let ?i = "findIndex (\<lambda>c. event_id c = event_id ev) (map snd prev)"
    from m have nn: "\<not> ?i < 0"
      by (simp add: findIndex_neg_iff)
    from findIndex_found [OF nn] have lt: "nat ?i < length prev"
      by simp
    have "List.find (\<lambda>kv. event_id (snd kv) = event_id ev) prev = Some (prev ! nat ?i)"
      by (rule findIndex_find [OF nn])
    moreover have "filename (fst (getExportRecordForEvent ev outputDir prev)) = fst (prev ! nat ?i)"
      using nn lt by (simp add: getExportRecordForEvent_def Let_def)
    ultimately have "List.find (\<lambda>kv. event_id (snd kv) = event_id ev) prev
        = Some (filename (fst (getExportRecordForEvent ev outputDir prev)), snd (prev ! nat ?i))"
      by simp
    then show ?thesis
      using nn by (auto simp: getExportRecordForEvent_def Let_def)
  qed
  have batch: "\<forall>r\<in>set (fst (getEventExports outputDir prev evs)). status r \<noteq> UP_TO_DATE"
    unfolding getEventExports_def by (rule loop_never_up_to_date) simp
  from matched record_never_up_to_date batch show ?thesis
    by blast
qed


text \<open>Events and indexes of the examples.\<close>

definition an_event :: "string option \<Rightarrow> string \<Rightarrow> Event" where
  "an_event i n =
     \<lparr>event_id = i, name = Some n, event_start = None, event_end = None, editions = Some []\<rparr>"

definition index_a_b :: exported_index where
  "index_a_b = [(''out/a.json'', an_event (Some ''A'') ''a''), (''out/b.json'', an_event (Some ''B'') ''b'')]"

lemmas name_eval = uniqueFilenamePath_def unique_from.simps candidate_def dir_prefix_def
  base_name_def show_nat.simps digit_char_def


text \<open>
  The index holds files for the ids \<open>A\<close> and \<open>B\<close>; the batch is \<open>A\<close> (renamed since)
  and \<open>C\<close>, whose name collides with the file of \<open>A\<close>.
\<close>

theorem matched_event_is_updated_witness:
  "getExportRecordForEvent (an_event (Some ''A'') ''renamed'') ''out'' index_a_b
     = (\<lparr>filename = ''out/a.json'', status = UPDATED, event = an_event (Some ''A'') ''renamed''\<rparr>,
        index_a_b)
   \<and> map status (fst (getEventExports ''out'' index_a_b
        [an_event (Some ''A'') ''renamed'', an_event (Some ''C'') ''a'']))
     = [UPDATED, CREATED]"
  using matched_event_is_updated [of index_a_b "an_event (Some ''A'') ''renamed''" "''out''"
      "[an_event (Some ''A'') ''renamed'', an_event (Some ''C'') ''a'']"]
  by (simp add: getExportRecordForEvent_def getEventExports_def index_a_b_def an_event_def name_eval Let_def)

lemma map_of_append_fresh:
  "k \<in> set (map fst kvs) \<Longrightarrow> map_of (kvs @ [(k', v)]) k = map_of kvs k"
  by (induction kvs) auto

lemma map_of_append_new:
  "k \<notin> set (map fst kvs) \<Longrightarrow> map_of (kvs @ [(k, v)]) k = Some v"
  by (induction kvs) auto

lemma map_of_nth: "distinct (map fst kvs) \<Longrightarrow> i < length kvs \<Longrightarrow> map_of kvs (fst (kvs ! i)) = Some (snd (kvs ! i))"
  by (metis map_of_eq_Some_iff nth_mem prod.collapse)

lemma created_step:
  assumes "findIndex (\<lambda>c. event_id c = event_id ev) (map snd prev) < 0"
  shows "getExportRecordForEvent ev outputDir prev =
           (\<lparr>filename = uniqueFilenamePath outputDir (name ev) ''json'' (map fst prev),
             status = CREATED, event = ev\<rparr>,
            prev @ [(uniqueFilenamePath outputDir (name ev) ''json'' (map fst prev), ev)])"
  using assms uniqueFilenamePath_fresh [of outputDir "name ev" "''json''" "map fst prev"]
  by (simp add: getExportRecordForEvent_def Let_def obj_set_fresh)

lemma updated_step:
  assumes "\<not> findIndex (\<lambda>c. event_id c = event_id ev) (map snd prev) < 0"
  shows "getExportRecordForEvent ev outputDir prev =
           (\<lparr>filename = fst (prev ! nat (findIndex (\<lambda>c. event_id c = event_id ev) (map snd prev))),
             status = UPDATED, event = ev\<rparr>, prev)"
  using assms findIndex_found [OF assms]
  by (simp add: getExportRecordForEvent_def Let_def)

text \<open>What one call does to the index, given that its keys are distinct.\<close>

lemma record_step:
  assumes d: "distinct (map fst prev)"
    and step: "getExportRecordForEvent ev outputDir prev = (r, prev')"
  shows "distinct (map fst prev')"
    and "set (map fst prev) \<subseteq> set (map fst prev')"
    and "\<And>k. k \<in> set (map fst prev) \<Longrightarrow> map_of prev' k = map_of prev k"
    and "\<exists>c. map_of prev' (filename r) = Some c \<and> event_id c = event_id ev"
    and "event r = ev"
    and "status r = CREATED \<Longrightarrow> filename r \<notin> set (map fst prev)"
    and "status r \<noteq> CREATED \<Longrightarrow> prev' = prev"
proof -
  let ?i = "findIndex (\<lambda>c. event_id c = event_id ev) (map snd prev)"
  let ?f = "uniqueFilenamePath outputDir (name ev) ''json'' (map fst prev)"
  have fresh: "?f \<notin> set (map fst prev)"
    by (rule uniqueFilenamePath_fresh)
  have all: "distinct (map fst prev') \<and> set (map fst prev) \<subseteq> set (map fst prev')
      \<and> (\<forall>k. k \<in> set (map fst prev) \<longrightarrow> map_of prev' k = map_of prev k)
      \<and> (\<exists>c. map_of prev' (filename r) = Some c \<and> event_id c = event_id ev)
      \<and> event r = ev
      \<and> (status r = CREATED \<longrightarrow> filename r \<notin> set (map fst prev))
      \<and> (status r \<noteq> CREATED \<longrightarrow> prev' = prev)"
  proof (cases "?i < 0")
    case True
    from created_step [OF True, of outputDir] step
    have r: "r = \<lparr>filename = ?f, status = CREATED, event = ev\<rparr>" and p: "prev' = prev @ [(?f, ev)]"
      by simp_all
    show ?thesis
      using d fresh by (auto simp: r p map_of_append_fresh map_of_append_new simp del: map_of_append)
  next
    case False
    from updated_step [OF False, of outputDir] step
    have r: "r = \<lparr>filename = fst (prev ! nat ?i), status = UPDATED, event = ev\<rparr>" and p: "prev' = prev"
      by simp_all
    note found = findIndex_found [OF False]
    from found have lt: "nat ?i < length prev"
      by simp
    have "map snd prev ! nat ?i = snd (prev ! nat ?i)"
      by (rule nth_map [OF lt])
    with found have idm: "event_id (snd (prev ! nat ?i)) = event_id ev"
      by simp
    have "map_of prev (fst (prev ! nat ?i)) = Some (snd (prev ! nat ?i))"
      by (rule map_of_nth [OF d lt])
    with idm have "\<exists>c. map_of prev (fst (prev ! nat ?i)) = Some c \<and> event_id c = event_id ev"
      by blast
    with d show ?thesis
      by (simp add: r p)
  qed
  from all show "distinct (map fst prev')" by blast
  from all show "set (map fst prev) \<subseteq> set (map fst prev')" by blast
  from all show "\<And>k. k \<in> set (map fst prev) \<Longrightarrow> map_of prev' k = map_of prev k" by blast
  from all show "\<exists>c. map_of prev' (filename r) = Some c \<and> event_id c = event_id ev" by blast
  from all show "event r = ev" by blast
  from all show "status r = CREATED \<Longrightarrow> filename r \<notin> set (map fst prev)" by blast
  from all show "status r \<noteq> CREATED \<Longrightarrow> prev' = prev" by blast
qed


text \<open>The events \<open>getEventExports\<close> does not skip.\<close>

definition eligible :: "Event \<Rightarrow> bool" where
  "eligible ev = (\<not> falsy (event_id ev))"

lemma loop_skip:
  "\<not> eligible ev \<Longrightarrow>
   getEventExports_loop outputDir (ev # evs) prev acc upd = getEventExports_loop outputDir evs prev acc upd"
  by (auto simp: eligible_def falsy_def split: option.splits)

lemma loop_take:
  "eligible ev \<Longrightarrow> getExportRecordForEvent ev outputDir prev = (r, prev') \<Longrightarrow>
   \<exists>upd'. getEventExports_loop outputDir (ev # evs) prev acc upd
         = getEventExports_loop outputDir evs prev' (acc @ [r]) upd'"
  by (auto simp: eligible_def falsy_def split: option.splits)

text \<open>
  The invariant of the loop: every record made so far has its file name as a key of
  the index, and the event stored under that key has the record's id.
\<close>

lemma loop_distinct_filenames:
  assumes "distinct (map fst prev)"
    and "distinct (map filename acc)"
    and "\<forall>r\<in>set acc. \<exists>c. map_of prev (filename r) = Some c \<and> event_id c = event_id (event r)"
    and "distinct (map event_id (filter eligible evs))"
    and "\<forall>r\<in>set acc. event_id (event r) \<notin> set (map event_id (filter eligible evs))"
  shows "distinct (map filename (fst (getEventExports_loop outputDir evs prev acc upd)))"
  using assms
proof (induction evs arbitrary: prev acc upd)
  case Nil
  then show ?case by simp
next
  case (Cons ev evs)
  show ?case
  proof (cases "eligible ev")
    case False
    with Cons.prems have "distinct (map filename (fst (getEventExports_loop outputDir evs prev acc upd)))"
      by (intro Cons.IH) simp_all
    then show ?thesis
      by (simp only: loop_skip [OF False])
  next
    case True
    obtain r prev' where step: "getExportRecordForEvent ev outputDir prev = (r, prev')"
      by (cases "getExportRecordForEvent ev outputDir prev")
    note st = record_step [OF Cons.prems(1) step]
    from loop_take [OF True step] obtain upd' where
      unfold: "getEventExports_loop outputDir (ev # evs) prev acc upd
                 = getEventExports_loop outputDir evs prev' (acc @ [r]) upd'"
      by blast
    have keys: "filename x \<in> set (map fst prev)" if "x \<in> set acc" for x
      using Cons.prems(3) that by (metis map_of_eq_None_iff option.distinct(1) set_map)
    have new: "filename r \<notin> set (map filename acc)"
    proof
      assume "filename r \<in> set (map filename acc)"
      then obtain x where x: "x \<in> set acc" "filename x = filename r"
        by auto
      from Cons.prems(3) x obtain c where c: "map_of prev (filename r) = Some c"
        "event_id c = event_id (event x)"
        by metis
      have notc: "status r \<noteq> CREATED"
        using st(6) keys [OF x(1)] x(2) by auto
      with st(7) have "prev' = prev" by simp
      with st(4) c have "event_id (event x) = event_id ev"
        by auto
      moreover from Cons.prems(5) x(1) True have "event_id (event x) \<noteq> event_id ev"
        by auto
      ultimately show False by simp
    qed
    have inv3: "\<forall>x\<in>set (acc @ [r]). \<exists>c. map_of prev' (filename x) = Some c \<and> event_id c = event_id (event x)"
      using Cons.prems(3) st(3) st(4) st(5) keys by auto
    have inv5: "\<forall>x\<in>set (acc @ [r]). event_id (event x) \<notin> set (map event_id (filter eligible evs))"
      using Cons.prems(4) Cons.prems(5) True st(5) by auto
    have "distinct (map filename (fst (getEventExports_loop outputDir evs prev' (acc @ [r]) upd')))"
    proof (rule Cons.IH)
      show "distinct (map fst prev')" by (rule st(1))
      show "distinct (map filename (acc @ [r]))"
        using Cons.prems(2) new by simp
      show "\<forall>x\<in>set (acc @ [r]). \<exists>c. map_of prev' (filename x) = Some c \<and> event_id c = event_id (event x)"
        by (rule inv3)
      show "distinct (map event_id (filter eligible evs))"
        using Cons.prems(4) True by simp
      show "\<forall>x\<in>set (acc @ [r]). event_id (event x) \<notin> set (map event_id (filter eligible evs))"
        by (rule inv5)
    qed
    with unfold show ?thesis by simp
  qed
qed


text \<open>
  A name allocated for a \<open>CREATED\<close> record is outside the index of that moment, which
  holds the names of all earlier records.
\<close>

lemma loop_created_fresh:
  assumes "distinct (map fst prev)"
    and "set (map filename acc) \<subseteq> set (map fst prev)"
    and "distinct (map filename (filter (\<lambda>r. status r = CREATED) acc))"
    and "\<forall>r\<in>set acc. status r = CREATED \<longrightarrow> filename r \<notin> K"
    and "K \<subseteq> set (map fst prev)"
  shows "distinct (map filename (filter (\<lambda>r. status r = CREATED)
                    (fst (getEventExports_loop outputDir evs prev acc upd))))
       \<and> (\<forall>r\<in>set (fst (getEventExports_loop outputDir evs prev acc upd)).
             status r = CREATED \<longrightarrow> filename r \<notin> K)
       \<and> set (map filename (fst (getEventExports_loop outputDir evs prev acc upd)))
             \<subseteq> set (map fst (snd (snd (getEventExports_loop outputDir evs prev acc upd))))"
  using assms
proof (induction evs arbitrary: prev acc upd)
  case Nil
  then show ?case by simp
next
  case (Cons ev evs)
  show ?case
  proof (cases "eligible ev")
    case False
    show ?thesis
      unfolding loop_skip [OF False] by (rule Cons.IH [OF Cons.prems])
  next
    case True
    obtain r prev' where step: "getExportRecordForEvent ev outputDir prev = (r, prev')"
      by (cases "getExportRecordForEvent ev outputDir prev")
    note st = record_step [OF Cons.prems(1) step]
    from loop_take [OF True step] obtain upd' where
      unfold: "getEventExports_loop outputDir (ev # evs) prev acc upd
                 = getEventExports_loop outputDir evs prev' (acc @ [r]) upd'"
      by blast
    from st(4) have key: "filename r \<in> set (map fst prev')"
      by (metis map_of_eq_None_iff option.distinct(1) set_map)
    have a2: "set (map filename (acc @ [r])) \<subseteq> set (map fst prev')"
      using Cons.prems(2) st(2) key by auto
    have a3: "distinct (map filename (filter (\<lambda>r. status r = CREATED) (acc @ [r])))"
      using Cons.prems(2) Cons.prems(3) st(6) by auto
    have a4: "\<forall>x\<in>set (acc @ [r]). status x = CREATED \<longrightarrow> filename x \<notin> K"
      using Cons.prems(4) Cons.prems(5) st(6) by auto
    have a5: "K \<subseteq> set (map fst prev')"
      using Cons.prems(5) st(2) by auto
    show ?thesis
      unfolding unfold by (rule Cons.IH [OF st(1) a2 a3 a4 a5])
  qed
qed

text \<open>
  An id that comes again in the batch: the record of the later event is \<open>UPDATED\<close> and
  has the file name of the earlier one. \<open>repeats_reuse\<close> says so of a list of records.
\<close>

lemma find_append_Some: "List.find P xs = Some x \<Longrightarrow> List.find P (xs @ ys) = Some x"
  by (induction xs) (auto split: if_splits)

lemma find_append_None: "List.find P xs = None \<Longrightarrow> List.find P (xs @ ys) = List.find P ys"
  by (induction xs) (auto split: if_splits)

text \<open>After a call, the first entry of the index with the event's id is the record's.\<close>

lemma record_is_first_match:
  assumes "getExportRecordForEvent ev outputDir prev = (r, prev')"
  shows "\<exists>c. List.find (\<lambda>kv. event_id (snd kv) = event_id ev) prev' = Some (filename r, c)"
proof (cases "findIndex (\<lambda>c. event_id c = event_id ev) (map snd prev) < 0")
  case True
  from created_step [OF True, of outputDir] assms
  have r: "filename r = uniqueFilenamePath outputDir (name ev) ''json'' (map fst prev)"
    and p: "prev' = prev @ [(uniqueFilenamePath outputDir (name ev) ''json'' (map fst prev), ev)]"
    by auto
  from True have "\<forall>x\<in>set (map snd prev). event_id x \<noteq> event_id ev"
    by (simp add: findIndex_neg_iff)
  then have "List.find (\<lambda>kv. event_id (snd kv) = event_id ev) prev = None"
    by (auto simp: find_None_iff)
  from find_append_None [OF this] show ?thesis
    by (simp add: r p)
next
  case False
  from updated_step [OF False, of outputDir] assms
  have r: "filename r = fst (prev ! nat (findIndex (\<lambda>c. event_id c = event_id ev) (map snd prev)))"
    and p: "prev' = prev"
    by auto
  from findIndex_find [OF False]
  have "List.find (\<lambda>kv. event_id (snd kv) = event_id ev) prev
      = Some (prev ! nat (findIndex (\<lambda>c. event_id c = event_id ev) (map snd prev)))" .
  then show ?thesis
    by (simp add: r p) (metis prod.collapse)
qed

text \<open>An event whose id has an entry in the index gets the key of the first such entry.\<close>

lemma first_match_is_reused:
  assumes "List.find (\<lambda>kv. event_id (snd kv) = event_id ev) prev = Some (k, c)"
  shows "getExportRecordForEvent ev outputDir prev
           = (\<lparr>filename = k, status = UPDATED, event = ev\<rparr>, prev)"
proof -
  from assms obtain i where "i < length prev" "event_id (snd (prev ! i)) = event_id ev"
    "(k, c) = prev ! i"
    by (auto simp: find_Some_iff)
  then have "(k, c) \<in> set prev \<and> event_id c = event_id ev"
    by (metis nth_mem snd_conv)
  then have "\<exists>x\<in>set (map snd prev). event_id x = event_id ev"
    by force
  then have nn: "\<not> findIndex (\<lambda>c. event_id c = event_id ev) (map snd prev) < 0"
    by (simp add: findIndex_neg_iff)
  from findIndex_find [OF nn] assms
  have "prev ! nat (findIndex (\<lambda>c. event_id c = event_id ev) (map snd prev)) = (k, c)"
    by simp
  with updated_step [OF nn, of outputDir] show ?thesis
    by simp
qed

lemma first_match_stays:
  assumes "getExportRecordForEvent ev outputDir prev = (r, prev')"
    and "List.find P prev = Some x"
  shows "List.find P prev' = Some x"
proof (cases "findIndex (\<lambda>c. event_id c = event_id ev) (map snd prev) < 0")
  case True
  from created_step [OF True, of outputDir] assms(1)
  have "prev' = prev @ [(uniqueFilenamePath outputDir (name ev) ''json'' (map fst prev), ev)]"
    by auto
  with find_append_Some [OF assms(2)] show ?thesis
    by simp
next
  case False
  from updated_step [OF False, of outputDir] assms(1) have "prev' = prev"
    by auto
  with assms(2) show ?thesis
    by simp
qed

definition repeats_reuse :: "ExportRecord list \<Rightarrow> bool" where
  "repeats_reuse recs =
     (\<forall>i j. i < j \<and> j < length recs \<and> event_id (event (recs ! i)) = event_id (event (recs ! j))
        \<longrightarrow> filename (recs ! j) = filename (recs ! i) \<and> status (recs ! j) = UPDATED)"

lemma loop_repeats_reuse:
  assumes "\<forall>r\<in>set acc. \<exists>c. List.find (\<lambda>kv. event_id (snd kv) = event_id (event r)) prev
                               = Some (filename r, c)"
    and "repeats_reuse acc"
  shows "repeats_reuse (fst (getEventExports_loop outputDir evs prev acc upd))"
  using assms
proof (induction evs arbitrary: prev acc upd)
  case Nil
  then show ?case by simp
next
  case (Cons ev evs)
  show ?case
  proof (cases "eligible ev")
    case False
    show ?thesis
      unfolding loop_skip [OF False] by (rule Cons.IH [OF Cons.prems])
  next
    case True
    obtain r prev' where step: "getExportRecordForEvent ev outputDir prev = (r, prev')"
      by (cases "getExportRecordForEvent ev outputDir prev")
    from loop_take [OF True step] obtain upd' where
      unfold: "getEventExports_loop outputDir (ev # evs) prev acc upd
                 = getEventExports_loop outputDir evs prev' (acc @ [r]) upd'"
      by blast
    have ev_r: "event r = ev"
      using step by (auto simp: getExportRecordForEvent_def Let_def split: if_splits)
    have inv: "\<forall>x\<in>set (acc @ [r]). \<exists>c. List.find (\<lambda>kv. event_id (snd kv) = event_id (event x)) prev'
                               = Some (filename x, c)"
    proof
      fix x assume "x \<in> set (acc @ [r])"
      then consider "x \<in> set acc" | "x = r" by auto
      then show "\<exists>c. List.find (\<lambda>kv. event_id (snd kv) = event_id (event x)) prev' = Some (filename x, c)"
      proof cases
        case 1
        with Cons.prems(1) obtain c where
          "List.find (\<lambda>kv. event_id (snd kv) = event_id (event x)) prev = Some (filename x, c)"
          by blast
        from first_match_stays [OF step this] show ?thesis
          by blast
      next
        case 2
        with record_is_first_match [OF step] ev_r show ?thesis
          by simp
      qed
    qed
    have old: "filename r = filename x \<and> status r = UPDATED"
      if "x \<in> set acc" "event_id (event x) = event_id ev" for x
    proof -
      from Cons.prems(1) that(1) obtain c where
        "List.find (\<lambda>kv. event_id (snd kv) = event_id (event x)) prev = Some (filename x, c)"
        by blast
      with that(2) have "List.find (\<lambda>kv. event_id (snd kv) = event_id ev) prev = Some (filename x, c)"
        by simp
      from first_match_is_reused [OF this, of outputDir] step show ?thesis
        by auto
    qed
    have rr: "repeats_reuse (acc @ [r])"
      unfolding repeats_reuse_def
    proof (intro allI impI)
      fix i j
      assume h: "i < j \<and> j < length (acc @ [r])
          \<and> event_id (event ((acc @ [r]) ! i)) = event_id (event ((acc @ [r]) ! j))"
      show "filename ((acc @ [r]) ! j) = filename ((acc @ [r]) ! i) \<and> status ((acc @ [r]) ! j) = UPDATED"
      proof (cases "j < length acc")
        case True
        with h have i: "i < length acc"
          by simp
        from h True i have "i < j \<and> j < length acc
            \<and> event_id (event (acc ! i)) = event_id (event (acc ! j))"
          by (simp add: nth_append)
        with Cons.prems(2) have "filename (acc ! j) = filename (acc ! i) \<and> status (acc ! j) = UPDATED"
          unfolding repeats_reuse_def by blast
        with True i show ?thesis
          by (simp add: nth_append)
      next
        case False
        with h have j: "j = length acc" and i: "i < length acc"
          by auto
        from h i j ev_r have "event_id (event (acc ! i)) = event_id ev"
          by (simp add: nth_append)
        from old [OF nth_mem [OF i] this] i j show ?thesis
          by (simp add: nth_append)
      qed
    qed
    show ?thesis
      unfolding unfold by (rule Cons.IH [OF inv rr])
  qed
qed

lemma exports_repeats_reuse: "repeats_reuse (fst (getEventExports outputDir prev evs))"
  unfolding getEventExports_def by (rule loop_repeats_reuse) (simp_all add: repeats_reuse_def)

text \<open>
  C6, amended. The keys of the index are distinct, as the keys of an object are. Then
  for every batch the file names of the \<open>CREATED\<close> records are pairwise different and
  none of them is a name of the index the run started with; every record's file name
  is a key of the index at the end (it was reserved when allocated); when the events
  of the batch that have an id have pairwise different ids, the file names of all
  records are pairwise different; and of two records for the same id, the later one
  is \<open>UPDATED\<close> and has the file name of the earlier one.
\<close>

theorem export_filenames_unique:
  assumes "distinct (map fst prev)"
  shows "(distinct (map event_id (filter eligible evs)) \<longrightarrow>
            distinct (map filename (fst (getEventExports outputDir prev evs))))
       \<and> distinct (map filename (filter (\<lambda>r. status r = CREATED)
                    (fst (getEventExports outputDir prev evs))))
       \<and> (\<forall>r\<in>set (fst (getEventExports outputDir prev evs)).
             status r = CREATED \<longrightarrow> filename r \<notin> set (map fst prev))
       \<and> set (map filename (fst (getEventExports outputDir prev evs)))
             \<subseteq> set (map fst (snd (snd (getEventExports outputDir prev evs))))
       \<and> (\<forall>i j. i < j \<and> j < length (fst (getEventExports outputDir prev evs))
              \<and> event_id (event (fst (getEventExports outputDir prev evs) ! i))
                  = event_id (event (fst (getEventExports outputDir prev evs) ! j))
            \<longrightarrow> filename (fst (getEventExports outputDir prev evs) ! j)
                  = filename (fst (getEventExports outputDir prev evs) ! i)
              \<and> status (fst (getEventExports outputDir prev evs) ! j) = UPDATED)"
proof -
  have again: "\<forall>i j. i < j \<and> j < length (fst (getEventExports outputDir prev evs))
              \<and> event_id (event (fst (getEventExports outputDir prev evs) ! i))
                  = event_id (event (fst (getEventExports outputDir prev evs) ! j))
            \<longrightarrow> filename (fst (getEventExports outputDir prev evs) ! j)
                  = filename (fst (getEventExports outputDir prev evs) ! i)
              \<and> status (fst (getEventExports outputDir prev evs) ! j) = UPDATED"
    using exports_repeats_reuse [of outputDir prev evs] unfolding repeats_reuse_def .
  have all: "distinct (map filename (fst (getEventExports outputDir prev evs)))"
    if "distinct (map event_id (filter eligible evs))"
    unfolding getEventExports_def
    using assms that by (intro loop_distinct_filenames) simp_all
  have created: "distinct (map filename (filter (\<lambda>r. status r = CREATED)
                    (fst (getEventExports outputDir prev evs))))
       \<and> (\<forall>r\<in>set (fst (getEventExports outputDir prev evs)).
             status r = CREATED \<longrightarrow> filename r \<notin> set (map fst prev))
       \<and> set (map filename (fst (getEventExports outputDir prev evs)))
             \<subseteq> set (map fst (snd (snd (getEventExports outputDir prev evs))))"
    unfolding getEventExports_def
    using assms by (intro loop_created_fresh) simp_all
  from all have first: "distinct (map event_id (filter eligible evs)) \<longrightarrow>
            distinct (map filename (fst (getEventExports outputDir prev evs)))"
    by blast
  show ?thesis
    by (intro conjI first again created [THEN conjunct1] created [THEN conjunct2, THEN conjunct1]
        created [THEN conjunct2, THEN conjunct2])
qed

text \<open>Two events named \<open>x\<close> against an index that already has \<open>x.json\<close>.\<close>

definition x_index :: exported_index where
  "x_index = [(''out/x.json'', an_event (Some ''old'') ''x'')]"


theorem export_filenames_unique_witness:
  "distinct (map filename (fst (getEventExports ''out'' x_index
       [an_event (Some ''a'') ''x'', an_event (Some ''b'') ''x''])))
   \<and> map filename (fst (getEventExports ''out'' x_index
       [an_event (Some ''a'') ''x'', an_event (Some ''b'') ''x'']))
     = [''out/x-1.json'', ''out/x-2.json'']
   \<and> ''out/x-1.json'' \<notin> set (map fst x_index) \<and> ''out/x-2.json'' \<notin> set (map fst x_index)"
proof -
  have keys: "distinct (map fst x_index)"
    by (simp add: x_index_def)
  have ids: "distinct (map event_id (filter eligible [an_event (Some ''a'') ''x'', an_event (Some ''b'') ''x'']))"
    by (simp add: eligible_def falsy_def an_event_def)
  have names: "map filename (fst (getEventExports ''out'' x_index
       [an_event (Some ''a'') ''x'', an_event (Some ''b'') ''x'']))
     = [''out/x-1.json'', ''out/x-2.json'']"
    by (simp add: getEventExports_def getExportRecordForEvent_def x_index_def an_event_def
        name_eval Let_def)
  have created: "map status (fst (getEventExports ''out'' x_index
       [an_event (Some ''a'') ''x'', an_event (Some ''b'') ''x'']))
     = [CREATED, CREATED]"
    by (simp add: getEventExports_def getExportRecordForEvent_def x_index_def an_event_def
        name_eval Let_def)
  from export_filenames_unique [OF keys, of "[an_event (Some ''a'') ''x'', an_event (Some ''b'') ''x'']" "''out''"] ids
  have "distinct (map filename (fst (getEventExports ''out'' x_index
       [an_event (Some ''a'') ''x'', an_event (Some ''b'') ''x''])))"
    by blast
  then show ?thesis
    using names by (simp add: x_index_def)
qed

text \<open>
  C6, as stated, fails for a batch that holds the same id twice: the first event is
  \<open>CREATED\<close> with a new name, the second finds the first in the index and is
  \<open>UPDATED\<close> with the same name, so two records share one file name.
\<close>

theorem same_id_twice_shares_filename:
  "map filename (fst (getEventExports ''out'' []
       [an_event (Some ''a'') ''x'', an_event (Some ''a'') ''x'']))
     = [''out/x.json'', ''out/x.json'']
   \<and> map status (fst (getEventExports ''out'' []
       [an_event (Some ''a'') ''x'', an_event (Some ''a'') ''x'']))
     = [CREATED, UPDATED]"
  by (simp add: getEventExports_def getExportRecordForEvent_def an_event_def name_eval Let_def)

subsection \<open>Confirmation before overwriting\<close>

text \<open>Enrichment talks to the service and to the log only.\<close>

lemma enrichEvents_loop_keeps:
  "enrichEvents_loop client with_log evs w = (res, w1) \<Longrightarrow>
   files w1 = files w \<and> dirs w1 = dirs w \<and> calls w1 = calls w \<and> stdout w1 = stdout w"
proof (induction evs arbitrary: w res w1)
  case Nil
  then show ?case by simp
next
  case (Cons ev evs)
  let ?w1 = "if with_log
             then on_log (appendLine (''Fetching '' @ render (name ev) @ '' with editions.'')) w
             else w"
  obtain res0 r1 where f: "fetch_editions client ev (remote ?w1) = (res0, r1)"
    by (cases "fetch_editions client ev (remote ?w1)")
  show ?case
  proof (cases res0)
    case (Inr eds)
    obtain rest w2 where rec: "enrichEvents_loop client with_log evs (?w1\<lparr>remote := r1\<rparr>) = (rest, w2)"
      by (cases "enrichEvents_loop client with_log evs (?w1\<lparr>remote := r1\<rparr>)")
    from Cons.prems f Inr rec have "w1 = w2"
      by (simp add: Let_def)
    with Cons.IH [OF rec] show ?thesis
      by (simp add: on_log_def)
  next
    case (Inl e)
    let ?w2 = "if with_log
               then on_log (log_error (''Failed to fetch editions for '' @ render (name ev)
                                         @ '', skipping.'') e) (?w1\<lparr>remote := r1\<rparr>)
               else ?w1\<lparr>remote := r1\<rparr>"
    obtain rest w2 where rec: "enrichEvents_loop client with_log evs ?w2 = (rest, w2)"
      by (cases "enrichEvents_loop client with_log evs ?w2")
    from Cons.prems f Inl rec have "w1 = w2"
      by (simp add: Let_def)
    with Cons.IH [OF rec] show ?thesis
      by (simp add: on_log_def)
  qed
qed

lemma enrichEvents_keeps:
  "enrichEvents client with_log evs w = (res, w1) \<Longrightarrow>
   files w1 = files w \<and> dirs w1 = dirs w \<and> calls w1 = calls w \<and> stdout w1 = stdout w"
  by (auto simp: enrichEvents_def split: prod.splits dest: enrichEvents_loop_keeps)

text \<open>\<open>updatedExportsMap\<close> has one entry for each \<open>UPDATED\<close> record, in order.\<close>

lemma loop_updated_map:
  "map snd upd = map filename (filter (\<lambda>r. status r = UPDATED) acc) \<Longrightarrow>
   getEventExports_loop outputDir evs prev acc upd = (allExports, updatedExportsMap, prev') \<Longrightarrow>
   map snd updatedExportsMap = map filename (filter (\<lambda>r. status r = UPDATED) allExports)"
proof (induction evs arbitrary: prev acc upd)
  case Nil
  then show ?case by simp
next
  case (Cons ev evs)
  show ?case
  proof (cases "eligible ev")
    case False
    with Cons show ?thesis
      by (simp only: loop_skip [OF False])
  next
    case True
    then obtain uri where uri: "event_id ev = Some uri" "uri \<noteq> []"
      by (auto simp: eligible_def falsy_def)
    obtain r p where step: "getExportRecordForEvent ev outputDir prev = (r, p)"
      by (cases "getExportRecordForEvent ev outputDir prev")
    show ?thesis
    proof (cases "status r = UPDATED")
      case True
      with Cons.prems(1) have "map snd (upd @ [(uri, filename r)])
          = map filename (filter (\<lambda>r. status r = UPDATED) (acc @ [r]))"
        by simp
      from Cons.IH [OF this] Cons.prems(2) uri step True show ?thesis
        by simp
    next
      case False
      with Cons.prems(1) have "map snd upd
          = map filename (filter (\<lambda>r. status r = UPDATED) (acc @ [r]))"
        by simp
      from Cons.IH [OF this] Cons.prems(2) uri step False show ?thesis
        by simp
    qed
  qed
qed

lemma updated_map_nonempty:
  assumes "getEventExports outputDir prev evs = (allExports, updatedExportsMap, prev')"
  shows "updatedExportsMap \<noteq> [] \<longleftrightarrow> (\<exists>r\<in>set allExports. status r = UPDATED)"
proof -
  from assms have loop: "getEventExports_loop outputDir evs prev [] [] = (allExports, updatedExportsMap, prev')"
    by (simp add: getEventExports_def)
  have "map snd updatedExportsMap = map filename (filter (\<lambda>r. status r = UPDATED) allExports)"
    by (rule loop_updated_map [OF _ loop]) simp
  then have "length updatedExportsMap = length (filter (\<lambda>r. status r = UPDATED) allExports)"
    by (metis length_map)
  then have "updatedExportsMap = [] \<longleftrightarrow> filter (\<lambda>r. status r = UPDATED) allExports = []"
    by (metis length_0_conv)
  then show ?thesis
    by (simp add: filter_empty_conv)
qed

lemma write_exports_calls: "\<exists>rest. calls (write_exports rs v) = calls v @ rest"
proof (induction rs arbitrary: v)
  case Nil
  then show ?case by simp
next
  case (Cons r rs)
  let ?v = "called (TableWrite [filename r, or_else (name (event r)) [], result_text (status r)])
              (if status r \<noteq> UP_TO_DATE
               then writeJsonToFile (filename r) ((event r)\<lparr>event_id := None\<rparr>) v
               else v)"
  from Cons.IH [of ?v] obtain rest where "calls (write_exports rs ?v) = calls ?v @ rest"
    by blast
  moreover have "\<exists>pre. calls ?v = calls v @ pre"
    by (simp add: called_def writeJsonToFile_def)
  ultimately show ?case
    by auto
qed

text \<open>
  C9. Take a run of \<open>processEvents\<close> in which the enriched batch yields at least one
  \<open>UPDATED\<close> record. Up to the prompt nothing was written and no directory was created,
  and the prompt is the first call the run makes on its collaborators, so every
  \<open>ensureDirectoryExists\<close> and \<open>writeJsonToFile\<close> comes after it. When the user
  declines, the only other call is \<open>nothingExportedExit\<close>: the files and the directories
  are those the run started with.
\<close>

theorem overwrite_needs_confirmation:
  assumes "enrichEvents client True eventsBeingExported w = (enriched, w1)"
    and "getEventExports outputDir prev enriched = (allExports, updatedExportsMap, prev')"
    and "\<exists>r\<in>set allExports. status r = UPDATED"
  shows "files w1 = files w \<and> dirs w1 = dirs w \<and> calls w1 = calls w
     \<and> (\<exists>rest. calls (processEvents client prompt outputDir prev eventsBeingExported w)
                 = calls w @ PromptToOverwriteExports updatedExportsMap # rest)
     \<and> (\<not> prompt updatedExportsMap \<longrightarrow>
           calls (processEvents client prompt outputDir prev eventsBeingExported w)
             = calls w @ [PromptToOverwriteExports updatedExportsMap, NothingExportedExit None False]
           \<and> files (processEvents client prompt outputDir prev eventsBeingExported w) = files w
           \<and> dirs (processEvents client prompt outputDir prev eventsBeingExported w) = dirs w)"
proof -
  note keeps = enrichEvents_keeps [OF assms(1)]
  from assms(3) have ne: "allExports \<noteq> []"
    by auto
  have some: "eventsBeingExported \<noteq> []"
  proof
    assume "eventsBeingExported = []"
    with assms(1) have "enriched = []"
      by (simp add: enrichEvents_def)
    with assms(2) have "allExports = []"
      by (simp add: getEventExports_def)
    with ne show False by simp
  qed
  from assms(3) updated_map_nonempty [OF assms(2)] have upd: "updatedExportsMap \<noteq> []"
    by simp
  have declined: "processEvents client prompt outputDir prev eventsBeingExported w
      = nothingExportedExit None False (called (PromptToOverwriteExports updatedExportsMap) w1)"
    if "\<not> prompt updatedExportsMap"
    using some assms(1,2) ne upd that by (simp add: processEvents_def Let_def)
  have accepted: "processEvents client prompt outputDir prev eventsBeingExported w
      = write_all outputDir allExports (called (PromptToOverwriteExports updatedExportsMap) w1)"
    if "prompt updatedExportsMap"
    using some assms(1,2) ne upd that by (simp add: processEvents_def Let_def)
  have write_calls: "\<exists>rest. calls (write_all outputDir allExports v) = calls v @ rest"
    for v :: "'a world"
    using write_exports_calls
      [of allExports "called (TableWrite [''File'', ''Schema ID'', ''Result'']) (ensureDirectoryExists outputDir v)"]
    by (auto simp: write_all_def console_log_def called_def ensureDirectoryExists_def)
  have first: "\<exists>rest. calls (processEvents client prompt outputDir prev eventsBeingExported w)
                 = calls w @ PromptToOverwriteExports updatedExportsMap # rest"
  proof (cases "prompt updatedExportsMap")
    case True
    from write_calls [of "called (PromptToOverwriteExports updatedExportsMap) w1"]
    show ?thesis
      by (auto simp: accepted [OF True] called_def keeps)
  next
    case False
    show ?thesis
      by (simp add: declined [OF False] nothingExportedExit_def called_def keeps)
  qed
  from keeps first declined show ?thesis
    by (auto simp: nothingExportedExit_def called_def)
qed


text \<open>A user who declines, and a run that would overwrite the file of \<open>A\<close>.\<close>

definition decline :: "ExportsMap list \<Rightarrow> bool" where
  "decline m = False"

definition declined_run :: "(string \<rightharpoonup> Status) world" where
  "declined_run =
     processEvents store_client decline ''out'' index_a_b [an_event (Some ''A'') ''renamed'']
       (start_world Map.empty)"


theorem overwrite_needs_confirmation_witness:
  "calls declined_run
     = [PromptToOverwriteExports [(''A'', ''out/a.json'')], NothingExportedExit None False]
   \<and> files declined_run = Map.empty
   \<and> dirs declined_run = {}
   \<and> ''out'' \<notin> dirs declined_run"
proof -
  have enrich: "enrichEvents store_client True [an_event (Some ''A'') ''renamed''] (start_world Map.empty)
      = ([an_event (Some ''A'') ''renamed''],
         on_log (appendLine ''Fetching renamed with editions.'') (start_world Map.empty))"
    by (simp add: enrichEvents_def fetch_editions_def store_client_def start_world_def an_event_def
        on_log_def appendLine_def render_def)
  have exports: "getEventExports ''out'' index_a_b [an_event (Some ''A'') ''renamed'']
      = ([\<lparr>filename = ''out/a.json'', status = UPDATED, event = an_event (Some ''A'') ''renamed''\<rparr>],
         [(''A'', ''out/a.json'')], index_a_b)"
    by (simp add: getEventExports_def getExportRecordForEvent_def index_a_b_def an_event_def Let_def)
  have no: "\<not> decline [(''A'', ''out/a.json'')]"
    by (simp add: decline_def)
  from overwrite_needs_confirmation [OF enrich exports, of decline] no
  show ?thesis
    by (simp add: declined_run_def start_world_def)
qed

subsection \<open>A failed listing\<close>

text \<open>
  C10. No id was given and listing the events of the hub is rejected. The handler
  logs the error, goes on with no events, leaves \<open>processEvents\<close> through
  \<open>nothingExportedExit\<close> with the message for an empty hub and \<open>exit = false\<close>, logs
  \<open>Done.\<close> and closes the log. Nothing else changes: no file is written and no
  directory is created.
\<close>

theorem list_failure_is_not_fatal:
  assumes "hubs_get client (hubId argv) (remote w) = (Inr hub, r1)"
    and "falsy (eventId argv)"
    and "events_list client hub r1 = (Inl e, r2)"
  shows "export_handler client prompt prev argv w =
           w\<lparr>remote := r2,
             fileLog := \<lparr>path = logFile argv,
                         entries = [ErrorLine ''Failed to list events.'' e, Line ''Done.''],
                         closed = True\<rparr>,
             calls := calls w @
               [NothingExportedExit
                  (Some (''No events to export from this hub, exiting.'' @ [CHR 0x0A])) False]\<rparr>
       \<and> files (export_handler client prompt prev argv w) = files w
       \<and> dirs (export_handler client prompt prev argv w) = dirs w"
proof -
  have list: "list_and_export client prompt prev argv hub (w\<lparr>fileLog := new_FileLog (logFile argv), remote := r1\<rparr>) =
           w\<lparr>remote := r2,
             fileLog := \<lparr>path = logFile argv,
                         entries = [ErrorLine ''Failed to list events.'' e, Line ''Done.''],
                         closed = True\<rparr>,
             calls := calls w @
               [NothingExportedExit
                  (Some (''No events to export from this hub, exiting.'' @ [CHR 0x0A])) False]\<rparr>"
    using assms(3)
    by (simp add: list_and_export_def finish_export_def processEvents_def nothingExportedExit_def
        called_def on_log_def log_error_def appendLine_def close_def new_FileLog_def)
  have "export_handler client prompt prev argv w
      = list_and_export client prompt prev argv hub (w\<lparr>fileLog := new_FileLog (logFile argv), remote := r1\<rparr>)"
    using assms(1,2) by (auto simp: export_handler_def Let_def falsy_def split: option.splits)
  with list show ?thesis
    by simp
qed

text \<open>The run of the command's test for a failed listing.\<close>

definition list_fails_client :: "(string \<rightharpoonup> Status) DynamicContent" where
  "list_fails_client = store_client\<lparr>events_list := (\<lambda>h r. (Inl (Error ''Error''), r))\<rparr>"

definition export_args :: Arguments where
  "export_args =
     \<lparr>hubId = ''hub-id'', clientId = ''client-id'', clientSecret = ''client-id'',
      dstHubId = None, dstClientId = None, dstSecret = None,
      revertLog = None, logFile = Some ''temp/exportEvent/listError.log'',
      dir = ''temp/exportEvent/listError/'', eventId = None,
      fromDate = None, toDate = None\<rparr>"

definition list_error_run :: "(string \<rightharpoonup> Status) world" where
  "list_error_run = export_handler list_fails_client decline [] export_args (start_world Map.empty)"

theorem list_failure_is_not_fatal_witness:
  "entries (fileLog list_error_run) = [ErrorLine ''Failed to list events.'' (Error ''Error''), Line ''Done.'']
   \<and> closed (fileLog list_error_run)
   \<and> calls list_error_run
       = [NothingExportedExit (Some (''No events to export from this hub, exiting.'' @ [CHR 0x0A])) False]
   \<and> files list_error_run = Map.empty
   \<and> ''temp/exportEvent/listError/'' \<notin> dirs list_error_run"
proof -
  have hub: "hubs_get list_fails_client (hubId export_args) (remote (start_world Map.empty))
      = (Inr ''hub-id'', Map.empty)"
    by (simp add: list_fails_client_def store_client_def export_args_def start_world_def)
  have noid: "falsy (eventId export_args)"
    by (simp add: falsy_def export_args_def)
  have list: "events_list list_fails_client ''hub-id'' Map.empty = (Inl (Error ''Error''), Map.empty)"
    by (simp add: list_fails_client_def store_client_def)
  from list_failure_is_not_fatal [OF hub noid list, of decline "[]"]
  show ?thesis
    by (simp add: list_error_run_def start_world_def)
qed

subsection \<open>Two events with the same name\<close>

definition null_id_run :: "(string \<rightharpoonup> Status) world" where
  "null_id_run =
     processEvents store_client decline ''out'' [] [an_event None ''x'', an_event None ''x'']
       (start_world Map.empty)"

text \<open>
  C7, as stated, fails. Two events without an id are both skipped by
  \<open>getEventExports\<close>: there is no record, so \<open>processEvents\<close> leaves through
  \<open>nothingExportedExit\<close>; neither \<open>x.json\<close> nor \<open>x-1.json\<close> is written and the
  output directory is not created.
\<close>

theorem null_id_batch_exports_nothing:
  "getEventExports ''out'' [] [an_event None ''x'', an_event None ''x''] = ([], [], [])
   \<and> calls null_id_run = [NothingExportedExit None False]
   \<and> files null_id_run ''out/x.json'' = None
   \<and> files null_id_run ''out/x-1.json'' = None
   \<and> dirs null_id_run = {}"
  by (simp add: null_id_run_def getEventExports_def processEvents_def enrichEvents_def
      fetch_editions_def store_client_def start_world_def an_event_def on_log_def appendLine_def
      render_def nothingExportedExit_def called_def)

definition same_name_run :: "(ExportsMap list \<Rightarrow> bool) \<Rightarrow> (string \<rightharpoonup> Status) world" where
  "same_name_run prompt =
     processEvents store_client prompt ''out'' []
       [an_event (Some ''a'') ''x'', an_event (Some ''b'') ''x''] (start_world Map.empty)"

text \<open>
  C7, amended. Two events named \<open>x\<close> with the different ids \<open>a\<close> and \<open>b\<close>, against an
  empty index, give two \<open>CREATED\<close> records with the file names \<open>out/x.json\<close> and
  \<open>out/x-1.json\<close>. No prompt is made, the directory is created and both files are
  written, each event without its id.
\<close>

theorem same_name_batch_gets_two_files:
  "fst (getEventExports ''out'' [] [an_event (Some ''a'') ''x'', an_event (Some ''b'') ''x''])
     = [\<lparr>filename = ''out/x.json'', status = CREATED, event = an_event (Some ''a'') ''x''\<rparr>,
        \<lparr>filename = ''out/x-1.json'', status = CREATED, event = an_event (Some ''b'') ''x''\<rparr>]
   \<and> files (same_name_run prompt) ''out/x.json'' = Some (an_event None ''x'')
   \<and> files (same_name_run prompt) ''out/x-1.json'' = Some (an_event None ''x'')
   \<and> dirs (same_name_run prompt) = {''out''}
   \<and> calls (same_name_run prompt)
       = [EnsureDirectoryExists ''out'', TableWrite [''File'', ''Schema ID'', ''Result''],
          WriteJsonToFile ''out/x.json'' (an_event None ''x''),
          TableWrite [''out/x.json'', ''x'', ''CREATED''],
          WriteJsonToFile ''out/x-1.json'' (an_event None ''x''),
          TableWrite [''out/x-1.json'', ''x'', ''CREATED'']]"
proof -
  have exports: "getEventExports ''out'' [] [an_event (Some ''a'') ''x'', an_event (Some ''b'') ''x'']
     = ([\<lparr>filename = ''out/x.json'', status = CREATED, event = an_event (Some ''a'') ''x''\<rparr>,
         \<lparr>filename = ''out/x-1.json'', status = CREATED, event = an_event (Some ''b'') ''x''\<rparr>],
        [],
        [(''out/x.json'', an_event (Some ''a'') ''x''), (''out/x-1.json'', an_event (Some ''b'') ''x'')])"
    by (simp add: getEventExports_def getExportRecordForEvent_def an_event_def name_eval Let_def)
  have enrich: "enrichEvents store_client True [an_event (Some ''a'') ''x'', an_event (Some ''b'') ''x'']
        (start_world Map.empty)
      = ([an_event (Some ''a'') ''x'', an_event (Some ''b'') ''x''],
         on_log (appendLine ''Fetching x with editions.'')
           (on_log (appendLine ''Fetching x with editions.'') (start_world Map.empty)))"
    by (simp add: enrichEvents_def fetch_editions_def store_client_def start_world_def an_event_def
        on_log_def appendLine_def render_def)
  have run: "same_name_run prompt = write_all ''out''
      [\<lparr>filename = ''out/x.json'', status = CREATED, event = an_event (Some ''a'') ''x''\<rparr>,
       \<lparr>filename = ''out/x-1.json'', status = CREATED, event = an_event (Some ''b'') ''x''\<rparr>]
      (on_log (appendLine ''Fetching x with editions.'')
           (on_log (appendLine ''Fetching x with editions.'') (start_world Map.empty)))"
    by (simp add: same_name_run_def processEvents_def enrich exports)
  show ?thesis
    unfolding run exports
    by (simp add: write_all_def ensureDirectoryExists_def writeJsonToFile_def called_def
        console_log_def on_log_def start_world_def an_event_def or_else_def)
qed

end
